theory Spec2Isabelle
  imports Main "HOL-Library.AList" "HOL-Library.Char_ord" "HOL-Library.List_Lexorder"
    "HOL-Library.Option_ord"
begin

section \<open>freespringer: the taxonomy index and the download loop\<close>

text \<open>
  A shallow embedding of \<^verbatim>\<open>freespringer.py\<close>. Python strings are \<open>string\<close>, ordered
  by code point and then length, which is the order of \<^verbatim>\<open>sorted\<close> on \<^verbatim>\<open>str\<close>. A
  spreadsheet cell read through openpyxl is a \<open>string option\<close>: \<open>None\<close> is the empty
  cell. A \<^verbatim>\<open>dict\<close> is an association list with distinct keys in insertion order, and
  storing a key is \<open>AList.update\<close>: an existing key keeps its place, a new one goes
  last. Every exception the code can raise is a value of \<open>error\<close>.
\<close>

subsection \<open>Exceptions\<close>

datatype error =
    AttributeError | TypeError | KeyError | ValueError | StopIteration
  | FileNotFoundError | FileExistsError | NotADirectoryError | IsADirectoryError
  | PermissionError | ConnectionError

subsection \<open>Strings\<close>

type_synonym cell = "string option"

definition is_space :: "char \<Rightarrow> bool" where
  \<comment> \<open>the characters below 256 for which \<^verbatim>\<open>str.isspace\<close> holds\<close>
  "is_space c \<longleftrightarrow> of_char c \<in> {9, 10, 11, 12, 13, 28, 29, 30, 31, 32, 133, 160 :: nat}"

definition strip_chars :: "(char \<Rightarrow> bool) \<Rightarrow> string \<Rightarrow> string" where
  \<comment> \<open>\<^verbatim>\<open>s.strip(chars)\<close>: drops from both ends while the character is in the set\<close>
  "strip_chars P s = rev (dropWhile P (rev (dropWhile P s)))"

definition py_strip :: "string \<Rightarrow> string" where
  \<comment> \<open>\<^verbatim>\<open>s.strip()\<close>\<close>
  "py_strip s = strip_chars is_space s"

fun split_on :: "char \<Rightarrow> string \<Rightarrow> string list" where
  \<comment> \<open>\<^verbatim>\<open>s.split(sep)\<close> for a one-character separator: never the empty list\<close>
  "split_on sep [] = [[]]"
| "split_on sep (c # cs) =
     (if c = sep then [] # split_on sep cs
      else (case split_on sep cs of
              [] \<Rightarrow> [[c]]
            | w # ws \<Rightarrow> (c # w) # ws))"

fun split_ws :: "string \<Rightarrow> string \<Rightarrow> string list" where
  \<comment> \<open>\<^verbatim>\<open>s.split()\<close>, with the word read so far as first argument\<close>
  "split_ws cur [] = (if cur = [] then [] else [cur])"
| "split_ws cur (c # cs) =
     (if is_space c then (if cur = [] then split_ws [] cs else cur # split_ws [] cs)
      else split_ws (cur @ [c]) cs)"

definition py_split :: "string \<Rightarrow> string list" where
  "py_split s = split_ws [] s"

fun py_join :: "string \<Rightarrow> string list \<Rightarrow> string" where
  \<comment> \<open>\<^verbatim>\<open>sep.join(ws)\<close>\<close>
  "py_join sep [] = []"
| "py_join sep [w] = w"
| "py_join sep (w # ws) = w @ sep @ py_join sep ws"

subsection \<open>Dictionaries\<close>

definition dict_get :: "('k \<times> 'v) list \<Rightarrow> 'k \<Rightarrow> error + 'v" where
  \<comment> \<open>\<^verbatim>\<open>d[k]\<close> on a \<^verbatim>\<open>dict\<close> or \<^verbatim>\<open>OrderedDict\<close>\<close>
  "dict_get d k = (case map_of d k of None \<Rightarrow> Inl KeyError | Some v \<Rightarrow> Inr v)"

definition dd_list :: "('k \<times> 'v list) list \<Rightarrow> 'k \<Rightarrow> 'v list" where
  \<comment> \<open>\<^verbatim>\<open>d[k]\<close> on a \<^verbatim>\<open>defaultdict(list)\<close>: a missing key reads as the empty list.
     Python also stores that empty list under the key; no function here reads the keys
     of such a dictionary afterwards, so the read is modelled without the store.\<close>
  "dd_list d k = (case map_of d k of None \<Rightarrow> [] | Some v \<Rightarrow> v)"

definition dd_set :: "('k \<times> 'v set) list \<Rightarrow> 'k \<Rightarrow> 'v set" where
  \<comment> \<open>\<^verbatim>\<open>d[k]\<close> on a \<^verbatim>\<open>defaultdict(set)\<close>\<close>
  "dd_set d k = (case map_of d k of None \<Rightarrow> {} | Some v \<Rightarrow> v)"

definition dd_append :: "('k \<times> 'v list) list \<Rightarrow> 'k \<Rightarrow> 'v \<Rightarrow> ('k \<times> 'v list) list" where
  \<comment> \<open>\<^verbatim>\<open>d[k].append(v)\<close>\<close>
  "dd_append d k v = AList.update k (dd_list d k @ [v]) d"

definition dd_add :: "('k \<times> 'v set) list \<Rightarrow> 'k \<Rightarrow> 'v \<Rightarrow> ('k \<times> 'v set) list" where
  \<comment> \<open>\<^verbatim>\<open>d[k].add(v)\<close>\<close>
  "dd_add d k v = AList.update k (insert v (dd_set d k)) d"

subsection \<open>The global tables\<close>

record globals =
  BOOKS_TITLES :: "(string \<times> cell) list"
  BOOKS_PACKAGES :: "(string \<times> cell) list"
  IDS_OF_PACKAGES :: "(cell \<times> int) list"
  IDS_OF_SUBJECTS :: "(string \<times> int) list"
  TOPICS_BOOKS :: "(int \<times> string list) list"
  TOPICS_IDS :: "(int \<times> cell) list"
  PACKAGES_RELS :: "(cell \<times> string set) list"
  SUBJECTS_RELS :: "(string \<times> cell set) list"

definition LONGEST :: nat where
  "LONGEST = 50"

definition init_globals :: globals where
  \<comment> \<open>the module-level tables as the import leaves them\<close>
  "init_globals = \<lparr>BOOKS_TITLES = [], BOOKS_PACKAGES = [], IDS_OF_PACKAGES = [],
     IDS_OF_SUBJECTS = [], TOPICS_BOOKS = [], TOPICS_IDS = [], PACKAGES_RELS = [],
     SUBJECTS_RELS = []\<rparr>"

subsection \<open>Reading the listing\<close>

text \<open>
  \<^verbatim>\<open>get_raw_list_of_books\<close> zips the columns A, L, T and R of the active sheet, drops the
  first row and returns the rest. The sheet is the list of its rows, each the four cells
  of those columns; fetching and caching the workbook stay outside. The cell of column R
  goes through \<^verbatim>\<open>strip("http://doi.org/")\<close> while the row is read, the header row too,
  and an empty cell there raises \<^verbatim>\<open>AttributeError\<close>.
\<close>

type_synonym row = "cell \<times> cell \<times> cell \<times> cell"
type_synonym raw_book = "cell \<times> cell \<times> cell \<times> string"

definition read_row :: "row \<Rightarrow> error + raw_book" where
  "read_row r = (case r of (title, package, subjects, doi) \<Rightarrow>
     (case doi of
        None \<Rightarrow> Inl AttributeError
      | Some d \<Rightarrow> Inr (title, package, subjects,
                       strip_chars (\<lambda>c. c \<in> set ''http://doi.org/'') d)))"

fun read_rows :: "row list \<Rightarrow> error + raw_book list" where
  "read_rows [] = Inr []"
| "read_rows (r # rs) =
     (case read_row r of
        Inl e \<Rightarrow> Inl e
      | Inr b \<Rightarrow> (case read_rows rs of Inl e \<Rightarrow> Inl e | Inr bs \<Rightarrow> Inr (b # bs)))"

definition get_raw_list_of_books :: "row list \<Rightarrow> error + raw_book list" where
  "get_raw_list_of_books sheet =
     (case sheet of
        [] \<Rightarrow> Inl StopIteration
      | header # rows \<Rightarrow>
          (case read_row header of
             Inl e \<Rightarrow> Inl e
           | Inr _ \<Rightarrow> read_rows rows))"

subsection \<open>Indexing\<close>

definition truncate_name :: "string \<Rightarrow> string" where
  \<comment> \<open>\<^verbatim>\<open>subj if len(subj) < LONGEST else subj[:LONGEST-3]+"..."\<close>\<close>
  "truncate_name subj =
     (if length subj < LONGEST then subj else take (LONGEST - 3) subj @ ''...'')"

definition subject_names :: "string \<Rightarrow> string list" where
  \<comment> \<open>the two list comprehensions at the head of the loop body\<close>
  "subject_names field = map truncate_name (map py_strip (split_on CHR '';'' field))"

type_synonym index_state =
  "globals \<times> (cell \<times> string list) list \<times> (string \<times> string list) list"
  \<comment> \<open>the globals with the locals \<^verbatim>\<open>PACKAGES_BOOKS\<close> and \<^verbatim>\<open>SUBJECTS_BOOKS\<close>\<close>

definition add_subject ::
  "cell \<Rightarrow> string \<Rightarrow> globals \<times> (string \<times> string list) list \<Rightarrow> string
     \<Rightarrow> globals \<times> (string \<times> string list) list" where
  \<comment> \<open>the body of \<^verbatim>\<open>for subj in subjects\<close>\<close>
  "add_subject package doi st subj = (case st of (g, sb) \<Rightarrow>
     (g\<lparr>PACKAGES_RELS := dd_add (PACKAGES_RELS g) package subj,
        SUBJECTS_RELS := dd_add (SUBJECTS_RELS g) subj package\<rparr>,
      dd_append sb subj doi))"

definition index_book :: "index_state \<Rightarrow> raw_book \<Rightarrow> error + index_state" where
  \<comment> \<open>the body of \<^verbatim>\<open>for title, package, subjects, doi in books\<close>; \<^verbatim>\<open>None.split\<close>
     raises \<^verbatim>\<open>AttributeError\<close>\<close>
  "index_book st b = (case st of (g, pb, sb) \<Rightarrow> (case b of (title, package, subjects, doi) \<Rightarrow>
     (case subjects of
        None \<Rightarrow> Inl AttributeError
      | Some field \<Rightarrow>
          (let pb1 = dd_append pb package doi;
               g1 = g\<lparr>BOOKS_PACKAGES := AList.update doi package (BOOKS_PACKAGES g)\<rparr>;
               (g2, sb2) = foldl (add_subject package doi) (g1, sb) (subject_names field);
               g3 = g2\<lparr>BOOKS_TITLES := AList.update doi title (BOOKS_TITLES g2)\<rparr>
           in Inr (g3, pb1, sb2)))))"

fun index_books :: "index_state \<Rightarrow> raw_book list \<Rightarrow> error + index_state" where
  "index_books st [] = Inr st"
| "index_books st (b # bs) =
     (case index_book st b of Inl e \<Rightarrow> Inl e | Inr st' \<Rightarrow> index_books st' bs)"

definition sorted_packages :: "cell list \<Rightarrow> error + cell list" where
  \<comment> \<open>\<^verbatim>\<open>sorted\<close> on the package keys: \<^verbatim>\<open>None\<close> and a \<^verbatim>\<open>str\<close> do not compare, so a
     missing package name among two or more keys raises \<^verbatim>\<open>TypeError\<close>; a single
     key is never compared\<close>
  "sorted_packages ks =
     (if None \<in> set ks \<and> 2 \<le> length ks then Inl TypeError else Inr (sort ks))"

definition enumerate :: "int \<Rightarrow> 'a list \<Rightarrow> (int \<times> 'a) list" where
  \<comment> \<open>\<^verbatim>\<open>enumerate(xs, start)\<close>\<close>
  "enumerate start xs = zip (map (\<lambda>i. start + int i) [0..<length xs]) xs"

definition number_package :: "globals \<Rightarrow> int \<times> cell \<Rightarrow> globals" where
  "number_package g p = (case p of (i, topic) \<Rightarrow>
     g\<lparr>IDS_OF_PACKAGES := AList.update topic i (IDS_OF_PACKAGES g),
       TOPICS_IDS := AList.update i topic (TOPICS_IDS g)\<rparr>)"

definition number_subject :: "globals \<Rightarrow> int \<times> string \<Rightarrow> globals" where
  "number_subject g p = (case p of (i, topic) \<Rightarrow>
     g\<lparr>IDS_OF_SUBJECTS := AList.update topic i (IDS_OF_SUBJECTS g),
       TOPICS_IDS := AList.update i (Some topic) (TOPICS_IDS g)\<rparr>)"

fun key_packages :: "globals \<Rightarrow> (cell \<times> string list) list \<Rightarrow> error + globals" where
  \<comment> \<open>\<^verbatim>\<open>for topic, books in PACKAGES_BOOKS.items()\<close>\<close>
  "key_packages g [] = Inr g"
| "key_packages g ((topic, books) # rest) =
     (case dict_get (IDS_OF_PACKAGES g) topic of
        Inl e \<Rightarrow> Inl e
      | Inr i \<Rightarrow> key_packages (g\<lparr>TOPICS_BOOKS := AList.update i books (TOPICS_BOOKS g)\<rparr>) rest)"

fun key_subjects :: "globals \<Rightarrow> (string \<times> string list) list \<Rightarrow> error + globals" where
  \<comment> \<open>\<^verbatim>\<open>for topic, books in SUBJECTS_BOOKS.items()\<close>\<close>
  "key_subjects g [] = Inr g"
| "key_subjects g ((topic, books) # rest) =
     (case dict_get (IDS_OF_SUBJECTS g) topic of
        Inl e \<Rightarrow> Inl e
      | Inr i \<Rightarrow> key_subjects (g\<lparr>TOPICS_BOOKS := AList.update i books (TOPICS_BOOKS g)\<rparr>) rest)"

definition assign_ids :: "index_state \<Rightarrow> error + globals" where
  \<comment> \<open>the four loops after the indexing loop\<close>
  "assign_ids st = (case st of (g, pb, sb) \<Rightarrow>
     (case sorted_packages (map fst (PACKAGES_RELS g)) of
        Inl e \<Rightarrow> Inl e
      | Inr ps \<Rightarrow>
          (let g1 = foldl number_package g (enumerate 1 ps);
               g2 = foldl number_subject g1
                      (enumerate (1 + int (length (PACKAGES_RELS g1)))
                         (sort (map fst (SUBJECTS_RELS g1))))
           in (case key_packages g2 pb of
                 Inl e \<Rightarrow> Inl e
               | Inr g3 \<Rightarrow> key_subjects g3 sb))))"

definition setup_globals :: "globals \<Rightarrow> row list \<Rightarrow> error + globals" where
  \<comment> \<open>the globals are updated in place; \<^verbatim>\<open>PACKAGES_BOOKS\<close> and \<^verbatim>\<open>SUBJECTS_BOOKS\<close>
     start empty on every call\<close>
  "setup_globals g sheet =
     (case get_raw_list_of_books sheet of
        Inl e \<Rightarrow> Inl e
      | Inr books \<Rightarrow>
          (case index_books (g, [], []) books of
             Inl e \<Rightarrow> Inl e
           | Inr st \<Rightarrow> assign_ids st))"

subsection \<open>Listing the books of topics\<close>

text \<open>
  Each \<^verbatim>\<open>print\<close> call is one entry of the output, in order. An exception carries the
  output printed before it.
\<close>

definition digit_char :: "nat \<Rightarrow> char" where
  "digit_char n = char_of (48 + n mod 10)"

fun str_nat :: "nat \<Rightarrow> string" where
  "str_nat n = (if n < 10 then [digit_char n] else str_nat (n div 10) @ [digit_char n])"

declare str_nat.simps [simp del]

definition str_int :: "int \<Rightarrow> string" where
  \<comment> \<open>\<^verbatim>\<open>str(i)\<close>, as an f-string formats an \<^verbatim>\<open>int\<close>\<close>
  "str_int i = (if i < 0 then CHR ''-'' # str_nat (nat (- i)) else str_nat (nat i))"

definition str_cell :: "cell \<Rightarrow> string" where
  \<comment> \<open>an f-string field holding a \<^verbatim>\<open>str\<close> or \<^verbatim>\<open>None\<close>\<close>
  "str_cell c = (case c of None \<Rightarrow> ''None'' | Some s \<Rightarrow> s)"

fun print_titles ::
  "globals \<Rightarrow> string list \<Rightarrow> string list \<Rightarrow> (error \<times> string list) + string list" where
  \<comment> \<open>\<^verbatim>\<open>for doi in TOPICS_BOOKS[idx]: print("   " + BOOKS_TITLES[doi])\<close>; adding
     \<^verbatim>\<open>None\<close> to a \<^verbatim>\<open>str\<close> raises \<^verbatim>\<open>TypeError\<close>\<close>
  "print_titles g out [] = Inr out"
| "print_titles g out (doi # dois) =
     (case dict_get (BOOKS_TITLES g) doi of
        Inl e \<Rightarrow> Inl (e, out)
      | Inr None \<Rightarrow> Inl (TypeError, out)
      | Inr (Some title) \<Rightarrow> print_titles g (out @ [''   '' @ title]) dois)"

fun print_packages ::
  "globals \<Rightarrow> string list \<Rightarrow> int list \<Rightarrow> (error \<times> string list) + string list" where
  \<comment> \<open>\<^verbatim>\<open>for idx in packages\<close>\<close>
  "print_packages g out [] = Inr out"
| "print_packages g out (idx # rest) =
     (if \<not> (0 < idx \<and> idx \<le> int (length (PACKAGES_RELS g)))
      then print_packages g (out @ [''NO PACKAGE WITH ID = '' @ str_int idx @ ''.'']) rest
      else (case dict_get (TOPICS_IDS g) idx of
              Inl e \<Rightarrow> Inl (e, out)
            | Inr name \<Rightarrow>
                (case print_titles g
                        (out @ [[CHR 0x0A] @ ''Books in package '' @ [CHR 0x22] @ str_cell name
                                 @ [CHR 0x22] @ '':''])
                        (dd_list (TOPICS_BOOKS g) idx) of
                   Inl x \<Rightarrow> Inl x
                 | Inr out' \<Rightarrow> print_packages g out' rest)))"

fun print_subjects ::
  "globals \<Rightarrow> string list \<Rightarrow> int list \<Rightarrow> (error \<times> string list) + string list" where
  \<comment> \<open>\<^verbatim>\<open>for idx in subjects\<close>, with the bounds the source compares with\<close>
  "print_subjects g out [] = Inr out"
| "print_subjects g out (idx # rest) =
     (if \<not> (int (length (PACKAGES_RELS g)) < idx \<and> idx \<le> int (length (SUBJECTS_RELS g)))
      then print_subjects g (out @ [''NO SUBJECT WITH ID = '' @ str_int idx @ ''.'']) rest
      else (case dict_get (TOPICS_IDS g) idx of
              Inl e \<Rightarrow> Inl (e, out)
            | Inr name \<Rightarrow>
                (case print_titles g
                        (out @ [[CHR 0x0A] @ ''Books in subject '' @ [CHR 0x22] @ str_cell name
                                 @ [CHR 0x22] @ '':''])
                        (dd_list (TOPICS_BOOKS g) idx) of
                   Inl x \<Rightarrow> Inl x
                 | Inr out' \<Rightarrow> print_subjects g out' rest)))"

definition print_books_in_topic ::
  "globals \<Rightarrow> int list option \<Rightarrow> int list option \<Rightarrow> (error \<times> string list) + string list" where
  \<comment> \<open>\<^verbatim>\<open>subjects or []\<close> and \<^verbatim>\<open>packages or []\<close>: \<^verbatim>\<open>None\<close> reads as no IDs\<close>
  "print_books_in_topic g subjects packages =
     (case print_packages g [] (case packages of None \<Rightarrow> [] | Some ps \<Rightarrow> ps) of
        Inl x \<Rightarrow> Inl x
      | Inr out \<Rightarrow> print_subjects g out (case subjects of None \<Rightarrow> [] | Some ss \<Rightarrow> ss))"

subsection \<open>Paths\<close>

text \<open>
  A \<^verbatim>\<open>pathlib\<close> path on POSIX: whether it starts at the root, and its components.
  Joining parses each segment: empty components and \<^verbatim>\<open>.\<close> are dropped, and a segment
  that starts with a slash replaces what came before.
\<close>

datatype path = Path bool "string list"

definition path_parts :: "string \<Rightarrow> string list" where
  "path_parts s = filter (\<lambda>p. p \<noteq> [] \<and> p \<noteq> ''.'') (split_on CHR ''/'' s)"

definition join1 :: "path \<Rightarrow> string \<Rightarrow> path" where
  "join1 p s = (case p of Path a ps \<Rightarrow>
     (case s of
        [] \<Rightarrow> Path a ps
      | c # _ \<Rightarrow> if c = CHR ''/'' then Path True (path_parts s)
                 else Path a (ps @ path_parts s)))"

definition joinpath :: "path \<Rightarrow> string list \<Rightarrow> path" where
  "joinpath p segs = foldl join1 p segs"

definition parent :: "path \<Rightarrow> path" where
  "parent p = (case p of Path a ps \<Rightarrow> Path a (butlast ps))"

definition rfind :: "char \<Rightarrow> string \<Rightarrow> int" where
  \<comment> \<open>\<^verbatim>\<open>s.rfind(c)\<close>: the last index of the character, or -1\<close>
  "rfind c s =
     (if c \<in> set s then int (length s) - 1 - int (length (takeWhile (\<lambda>x. x \<noteq> c) (rev s)))
      else - 1)"

definition suffix :: "string \<Rightarrow> string" where
  \<comment> \<open>\<^verbatim>\<open>PurePath.suffix\<close> of a final component\<close>
  "suffix name =
     (let i = rfind CHR ''.'' name
      in if 0 < i \<and> i < int (length name) - 1 then drop (nat i) name else [])"

definition with_suffix :: "path \<Rightarrow> string \<Rightarrow> error + path" where
  \<comment> \<open>\<^verbatim>\<open>PurePath.with_suffix\<close>: the old suffix of the final component is replaced\<close>
  "with_suffix p suf = (case p of Path a ps \<Rightarrow>
     (if CHR ''/'' \<in> set suf \<or> suf = ''.'' \<or> (suf \<noteq> [] \<and> hd suf \<noteq> CHR ''.'')
      then Inl ValueError
      else if ps = [] then Inl ValueError
      else (let name = last ps; old = suffix name
            in Inr (Path a (butlast ps @
                 [if old = [] then name @ suf
                  else take (length name - length old) name @ suf])))))"

subsection \<open>The file system and the server\<close>

text \<open>
  The world outside the process: the directories and files that exist, the paths the
  operating system refuses to create or write (permissions, quota), the server's answer
  to a request at a given moment, and the trace of what the downloads did. The current
  directory and the root always exist. Components are looked up as written: \<^verbatim>\<open>..\<close>
  and links are not resolved.
\<close>

datatype node = Dir | File string

datatype reply = Reply int string | NoReply

datatype event =
    GET string string      \<comment> \<open>book identifier and link requested\<close>
  | WRITE string path      \<comment> \<open>book identifier and file written\<close>
  | WARNING string int     \<comment> \<open>\<^verbatim>\<open>logger.warning\<close>: title and response code\<close>
  | ERROR string           \<comment> \<open>\<^verbatim>\<open>logger.error\<close>: the unsupported format\<close>

record world =
  fs :: "path \<Rightarrow> node option"
  refused :: "path \<Rightarrow> bool"
  server :: "nat \<Rightarrow> string \<Rightarrow> reply"
  trace :: "event list"

definition node_at :: "world \<Rightarrow> path \<Rightarrow> node option" where
  "node_at w p = (case p of Path a ps \<Rightarrow> if ps = [] then Some Dir else fs w p)"

definition mkdir_exist_ok :: "world \<Rightarrow> path \<Rightarrow> error + world" where
  \<comment> \<open>\<^verbatim>\<open>p.mkdir(exist_ok=True)\<close>, without \<^verbatim>\<open>parents=True\<close>\<close>
  "mkdir_exist_ok w p =
     (case node_at w p of
        Some Dir \<Rightarrow> Inr w
      | Some (File _) \<Rightarrow> Inl FileExistsError
      | None \<Rightarrow>
          (case node_at w (parent p) of
             None \<Rightarrow> Inl FileNotFoundError
           | Some (File _) \<Rightarrow> Inl NotADirectoryError
           | Some Dir \<Rightarrow>
               if refused w p then Inl PermissionError
               else Inr (w\<lparr>fs := (fs w)(p \<mapsto> Dir)\<rparr>)))"

definition write_file :: "world \<Rightarrow> path \<Rightarrow> string \<Rightarrow> error + world" where
  \<comment> \<open>\<^verbatim>\<open>with path.open("wb") as handle\<close> and the chunks written to it\<close>
  "write_file w p body =
     (case node_at w p of
        Some Dir \<Rightarrow> Inl IsADirectoryError
      | _ \<Rightarrow>
          (case node_at w (parent p) of
             None \<Rightarrow> Inl FileNotFoundError
           | Some (File _) \<Rightarrow> Inl NotADirectoryError
           | Some Dir \<Rightarrow>
               if refused w p then Inl PermissionError
               else Inr (w\<lparr>fs := (fs w)(p \<mapsto> File body)\<rparr>)))"

subsection \<open>Downloading\<close>

definition hex_char :: "nat \<Rightarrow> char" where
  "hex_char n = ''0123456789ABCDEF'' ! (n mod 16)"

definition percent :: "nat \<Rightarrow> string" where
  "percent b = [CHR ''%'', hex_char (b div 16), hex_char b]"

definition unreserved :: "char \<Rightarrow> bool" where
  "unreserved c \<longleftrightarrow>
     c \<in> set ''ABCDEFGHIJKLMNOPQRSTUVWXYZabcdefghijklmnopqrstuvwxyz0123456789_.-~''"

definition quote_char :: "char \<Rightarrow> string" where
  \<comment> \<open>a character outside the unreserved ones becomes the escapes of its UTF-8 bytes\<close>
  "quote_char c =
     (let n = of_char c :: nat
      in if unreserved c then [c]
         else if n < 128 then percent n
         else percent (192 + n div 64) @ percent (128 + n mod 64))"

definition quote :: "string \<Rightarrow> string" where
  \<comment> \<open>\<^verbatim>\<open>requests.utils.quote(doi, safe='')\<close>\<close>
  "quote s = concat (map quote_char s)"

definition LINKS :: "(string \<times> (string \<Rightarrow> string)) list" where
  \<comment> \<open>each template as the function \<^verbatim>\<open>format(doi=...)\<close> computes from it\<close>
  "LINKS =
     [(''pdf'', \<lambda>doi. ''https://link.springer.com/content/pdf/'' @ doi @ ''.pdf''),
      (''epub'', \<lambda>doi. ''https://link.springer.com/download/epub/'' @ doi @ ''.epub'')]"

type_synonym dl_state = "world \<times> string set"
  \<comment> \<open>the world and \<^verbatim>\<open>already_downloaded\<close>\<close>

definition download_book ::
  "globals \<Rightarrow> string \<Rightarrow> path \<Rightarrow> string \<Rightarrow> cell \<Rightarrow> dl_state \<Rightarrow> (error \<times> world) + dl_state" where
  \<comment> \<open>\<^verbatim>\<open>_download_book\<close>. An exception carries the world it leaves behind.\<close>
  "download_book g doi dest ext group' st = (case st of (w, already_downloaded) \<Rightarrow>
     if doi \<in> already_downloaded then Inr (w, already_downloaded)
     else
      (case dict_get (BOOKS_TITLES g) doi of
         Inl e \<Rightarrow> Inl (e, w)
       | Inr None \<Rightarrow> Inl (AttributeError, w)
       | Inr (Some bookname) \<Rightarrow>
      (let escaped = quote doi;
           filename = py_join ''-'' (py_split bookname)
       in
      (case group' of
         None \<Rightarrow> Inl (TypeError, w)
       | Some grp \<Rightarrow>
      (case with_suffix (joinpath dest [grp, filename]) (CHR ''.'' # ext) of
         Inl e \<Rightarrow> Inl (e, w)
       | Inr path \<Rightarrow>
      (case mkdir_exist_ok w (parent path) of
         Inl e \<Rightarrow> Inl (e, w)
       | Inr w1 \<Rightarrow>
      (case dict_get LINKS ext of
         Inl e \<Rightarrow> Inl (e, w1)
       | Inr template \<Rightarrow>
      (let link = template escaped;
           w2 = w1\<lparr>trace := trace w1 @ [GET doi link]\<rparr>
       in
      (case server w1 (length (trace w1)) link of
         NoReply \<Rightarrow> Inl (ConnectionError, w2)
       | Reply status_code body \<Rightarrow>
           if status_code \<noteq> 200
           then Inr (w2\<lparr>trace := trace w2 @ [WARNING bookname status_code]\<rparr>,
                    already_downloaded)
           else
            (case write_file w2 path body of
               Inl e \<Rightarrow> Inl (e, w2)
             | Inr w3 \<Rightarrow>
                 Inr (w3\<lparr>trace := trace w3 @ [WRITE doi path]\<rparr>,
                      insert doi already_downloaded)))))))))))"

fun download_dois ::
  "globals \<Rightarrow> path \<Rightarrow> string \<Rightarrow> bool \<Rightarrow> dl_state \<Rightarrow> string list
     \<Rightarrow> (error \<times> world) + dl_state" where
  \<comment> \<open>\<^verbatim>\<open>for doi in TOPICS_BOOKS[tid]\<close>; the argument
     \<^verbatim>\<open>BOOKS_PACKAGES[doi] if group else ''\<close> is evaluated before the call\<close>
  "download_dois g dest ext group' st [] = Inr st"
| "download_dois g dest ext group' st (doi # dois) =
     (case (if group' then dict_get (BOOKS_PACKAGES g) doi else Inr (Some [])) of
        Inl e \<Rightarrow> Inl (e, fst st)
      | Inr grp \<Rightarrow>
          (case download_book g doi dest ext grp st of
             Inl x \<Rightarrow> Inl x
           | Inr st' \<Rightarrow> download_dois g dest ext group' st' dois))"

fun download_topics ::
  "globals \<Rightarrow> path \<Rightarrow> string \<Rightarrow> bool \<Rightarrow> dl_state \<Rightarrow> int list
     \<Rightarrow> (error \<times> world) + dl_state" where
  \<comment> \<open>\<^verbatim>\<open>for tid in topics\<close>\<close>
  "download_topics g dest ext group' st [] = Inr st"
| "download_topics g dest ext group' st (tid # tids) =
     (case download_dois g dest ext group' st (dd_list (TOPICS_BOOKS g) tid) of
        Inl x \<Rightarrow> Inl x
      | Inr st' \<Rightarrow> download_topics g dest ext group' st' tids)"

definition download_books ::
  "globals \<Rightarrow> int list \<Rightarrow> path \<Rightarrow> string \<Rightarrow> bool \<Rightarrow> world \<Rightarrow> (error \<times> world) + world" where
  \<comment> \<open>An unsupported format is logged and the call returns. With \<^verbatim>\<open>BOOKS_TITLES\<close>
     empty the code calls \<^verbatim>\<open>setup_globals()\<close> without its required argument, which
     raises \<^verbatim>\<open>TypeError\<close>.\<close>
  "download_books g topics dest extention group' w =
     (case dict_get LINKS extention of
        Inl _ \<Rightarrow> Inr (w\<lparr>trace := trace w @ [ERROR extention]\<rparr>)
      | Inr _ \<Rightarrow>
          if BOOKS_TITLES g = [] then Inl (TypeError, w)
          else (case download_topics g dest extention group' (w, {}) topics of
                  Inl x \<Rightarrow> Inl x
                | Inr (w', _) \<Rightarrow> Inr w'))"

subsection \<open>Notions for stating the properties\<close>

definition add_key :: "'k list \<Rightarrow> 'k \<Rightarrow> 'k list" where
  \<comment> \<open>the keys of a dictionary after a store under \<open>k\<close>\<close>
  "add_key ks k = (if k \<in> set ks then ks else ks @ [k])"

definition add_keys :: "'k list \<Rightarrow> 'k list \<Rightarrow> 'k list" where
  "add_keys ks new = foldl add_key ks new"

definition book_package :: "raw_book \<Rightarrow> cell" where
  "book_package b = (case b of (title, package, subjects, doi) \<Rightarrow> package)"

definition book_doi :: "raw_book \<Rightarrow> string" where
  "book_doi b = (case b of (title, package, subjects, doi) \<Rightarrow> doi)"

definition book_subjects :: "raw_book \<Rightarrow> string list" where
  \<comment> \<open>the subject names a record is indexed under\<close>
  "book_subjects b = (case b of (title, package, subjects, doi) \<Rightarrow>
     (case subjects of None \<Rightarrow> [] | Some field \<Rightarrow> subject_names field))"

definition row_doi :: "row \<Rightarrow> cell" where
  "row_doi r = (case r of (title, package, subjects, doi) \<Rightarrow> doi)"

definition subjects_cell :: "cell \<times> cell \<times> cell \<times> 'd \<Rightarrow> cell" where
  "subjects_cell r = (case r of (title, package, subjects, doi) \<Rightarrow> subjects)"

definition package_cell :: "cell \<times> cell \<times> cell \<times> 'd \<Rightarrow> cell" where
  "package_cell r = (case r of (title, package, subjects, doi) \<Rightarrow> package)"

definition read_book :: "row \<Rightarrow> raw_book" where
  \<comment> \<open>what \<open>read_row\<close> returns for a row with an identifier cell\<close>
  "read_book r = (case r of (title, package, subjects, doi) \<Rightarrow>
     (title, package, subjects,
      (case doi of None \<Rightarrow> [] | Some d \<Rightarrow> strip_chars (\<lambda>c. c \<in> set ''http://doi.org/'') d)))"

definition subject_books :: "string \<Rightarrow> raw_book list \<Rightarrow> string list" where
  \<comment> \<open>the identifiers appended under a subject name: one for each time a record
     names it, in the order of the records\<close>
  "subject_books n bs =
     concat (map (\<lambda>b. replicate (count_list (book_subjects b) n) (book_doi b)) bs)"

definition package_books :: "cell \<Rightarrow> raw_book list \<Rightarrow> string list" where
  "package_books p bs = map book_doi (filter (\<lambda>b. book_package b = p) bs)"

definition book_link :: "string \<Rightarrow> string \<Rightarrow> string" where
  \<comment> \<open>the link \<open>download_book\<close> requests\<close>
  "book_link ext doi =
     (case map_of LINKS ext of None \<Rightarrow> [] | Some template \<Rightarrow> template (quote doi))"

fun is_get :: "string \<Rightarrow> event \<Rightarrow> bool" where
  "is_get d (GET d' link) = (d' = d)"
| "is_get d _ = False"

fun is_write :: "string \<Rightarrow> event \<Rightarrow> bool" where
  "is_write d (WRITE d' p) = (d' = d)"
| "is_write d _ = False"

definition fetches :: "string \<Rightarrow> event list \<Rightarrow> nat" where
  "fetches d tr = length (filter (is_get d) tr)"

definition writes :: "string \<Rightarrow> event list \<Rightarrow> nat" where
  "writes d tr = length (filter (is_write d) tr)"

definition requested_books :: "globals \<Rightarrow> int list \<Rightarrow> string list" where
  \<comment> \<open>the identifiers the two nested loops of \<open>download_books\<close> go through\<close>
  "requested_books g topics = concat (map (dd_list (TOPICS_BOOKS g)) topics)"

subsection \<open>Sample listings and worlds\<close>

definition example_sheet :: "row list" where
  \<comment> \<open>a header row and three books in two packages and two subjects\<close>
  "example_sheet =
     [(Some ''Book Title'', Some ''English Package Name'', Some ''Subject Classification'',
       Some ''DOI URL''),
      (Some ''Book A'', Some ''Pkg1'', Some ''Math; Physics'', Some ''10.1/aaa''),
      (Some ''Book B'', Some ''Pkg1'', Some ''Math'', Some ''10.1/bbb''),
      (Some ''Book C'', Some ''Pkg2'', Some ''Physics'', Some ''10.1/ccc'')]"

definition example_index :: globals where
  "example_index =
     \<lparr>BOOKS_TITLES =
        [(''10.1/aaa'', Some ''Book A''), (''10.1/bbb'', Some ''Book B''),
         (''10.1/ccc'', Some ''Book C'')],
      BOOKS_PACKAGES =
        [(''10.1/aaa'', Some ''Pkg1''), (''10.1/bbb'', Some ''Pkg1''),
         (''10.1/ccc'', Some ''Pkg2'')],
      IDS_OF_PACKAGES = [(Some ''Pkg1'', 1), (Some ''Pkg2'', 2)],
      IDS_OF_SUBJECTS = [(''Math'', 3), (''Physics'', 4)],
      TOPICS_BOOKS =
        [(1, [''10.1/aaa'', ''10.1/bbb'']), (2, [''10.1/ccc'']),
         (3, [''10.1/aaa'', ''10.1/bbb'']), (4, [''10.1/aaa'', ''10.1/ccc''])],
      TOPICS_IDS =
        [(1, Some ''Pkg1''), (2, Some ''Pkg2''), (3, Some ''Math''), (4, Some ''Physics'')],
      PACKAGES_RELS =
        [(Some ''Pkg1'', {''Math'', ''Physics''}), (Some ''Pkg2'', {''Physics''})],
      SUBJECTS_RELS =
        [(''Math'', {Some ''Pkg1''}), (''Physics'', {Some ''Pkg1'', Some ''Pkg2''})]\<rparr>"

definition header_row :: row where
  "header_row = (Some ''Book Title'', Some ''English Package Name'',
     Some ''Subject Classification'', Some ''DOI URL'')"

definition dotted_sheet :: "row list" where
  \<comment> \<open>one book whose title has a dot inside\<close>
  "dotted_sheet =
     [header_row, (Some ''Node.js Basics'', Some ''Pkg1'', Some ''Web'', Some ''10.1/njs'')]"

definition dotted_index :: globals where
  "dotted_index =
     \<lparr>BOOKS_TITLES = [(''10.1/njs'', Some ''Node.js Basics'')],
      BOOKS_PACKAGES = [(''10.1/njs'', Some ''Pkg1'')],
      IDS_OF_PACKAGES = [(Some ''Pkg1'', 1)],
      IDS_OF_SUBJECTS = [(''Web'', 2)],
      TOPICS_BOOKS = [(1, [''10.1/njs'']), (2, [''10.1/njs''])],
      TOPICS_IDS = [(1, Some ''Pkg1''), (2, Some ''Web'')],
      PACKAGES_RELS = [(Some ''Pkg1'', {''Web''})],
      SUBJECTS_RELS = [(''Web'', {Some ''Pkg1''})]\<rparr>"

definition long_a :: string where
  "long_a = replicate 50 CHR ''a'' @ ''X''"

definition long_b :: string where
  "long_b = replicate 50 CHR ''a'' @ ''Y''"

definition long_sheet :: "row list" where
  \<comment> \<open>two books whose subject fields carry two different names with the same first 47
     characters, each next to another subject\<close>
  "long_sheet =
     [header_row,
      (Some ''Book A'', Some ''Pkg1'', Some (long_a @ ''; Algebra''), Some ''10.1/aaa''),
      (Some ''Book B'', Some ''Pkg2'', Some (''Logic;'' @ long_b), Some ''10.1/bbb'')]"

definition long_books :: "raw_book list" where
  "long_books =
     [(Some ''Book A'', Some ''Pkg1'', Some (long_a @ ''; Algebra''), ''10.1/aaa''),
      (Some ''Book B'', Some ''Pkg2'', Some (''Logic;'' @ long_b), ''10.1/bbb'')]"

definition long_name :: string where
  "long_name = replicate 47 CHR ''a'' @ ''...''"

definition long_index :: globals where
  "long_index =
     \<lparr>BOOKS_TITLES = [(''10.1/aaa'', Some ''Book A''), (''10.1/bbb'', Some ''Book B'')],
      BOOKS_PACKAGES = [(''10.1/aaa'', Some ''Pkg1''), (''10.1/bbb'', Some ''Pkg2'')],
      IDS_OF_PACKAGES = [(Some ''Pkg1'', 1), (Some ''Pkg2'', 2)],
      IDS_OF_SUBJECTS = [(''Algebra'', 3), (''Logic'', 4), (long_name, 5)],
      TOPICS_BOOKS =
        [(1, [''10.1/aaa'']), (2, [''10.1/bbb'']), (5, [''10.1/aaa'', ''10.1/bbb'']),
         (3, [''10.1/aaa'']), (4, [''10.1/bbb''])],
      TOPICS_IDS =
        [(1, Some ''Pkg1''), (2, Some ''Pkg2''), (3, Some ''Algebra''), (4, Some ''Logic''),
         (5, Some long_name)],
      PACKAGES_RELS =
        [(Some ''Pkg1'', {''Algebra'', long_name}), (Some ''Pkg2'', {long_name, ''Logic''})],
      SUBJECTS_RELS =
        [(long_name, {Some ''Pkg2'', Some ''Pkg1''}), (''Algebra'', {Some ''Pkg1''}),
         (''Logic'', {Some ''Pkg2''})]\<rparr>"

definition blank_sheet :: "row list" where
  \<comment> \<open>one book whose subjects field is the empty string\<close>
  "blank_sheet = [header_row, (Some ''Book A'', Some ''Pkg1'', Some [], Some ''10.1/aaa'')]"

definition blank_index :: globals where
  "blank_index =
     \<lparr>BOOKS_TITLES = [(''10.1/aaa'', Some ''Book A'')],
      BOOKS_PACKAGES = [(''10.1/aaa'', Some ''Pkg1'')],
      IDS_OF_PACKAGES = [(Some ''Pkg1'', 1)],
      IDS_OF_SUBJECTS = [([], 2)],
      TOPICS_BOOKS = [(1, [''10.1/aaa'']), (2, [''10.1/aaa''])],
      TOPICS_IDS = [(1, Some ''Pkg1''), (2, Some [])],
      PACKAGES_RELS = [(Some ''Pkg1'', {[]})],
      SUBJECTS_RELS = [([], {Some ''Pkg1''})]\<rparr>"

definition untitled_sheet :: "row list" where
  \<comment> \<open>one book whose title cell is empty\<close>
  "untitled_sheet = [header_row, (None, Some ''Pkg1'', Some ''Math'', Some ''10.1/aaa'')]"

definition untitled_index :: globals where
  "untitled_index =
     \<lparr>BOOKS_TITLES = [(''10.1/aaa'', None)],
      BOOKS_PACKAGES = [(''10.1/aaa'', Some ''Pkg1'')],
      IDS_OF_PACKAGES = [(Some ''Pkg1'', 1)],
      IDS_OF_SUBJECTS = [(''Math'', 2)],
      TOPICS_BOOKS = [(1, [''10.1/aaa'']), (2, [''10.1/aaa''])],
      TOPICS_IDS = [(1, Some ''Pkg1''), (2, Some ''Math'')],
      PACKAGES_RELS = [(Some ''Pkg1'', {''Math''})],
      SUBJECTS_RELS = [(''Math'', {Some ''Pkg1''})]\<rparr>"

definition example_books :: "raw_book list" where
  "example_books =
     [(Some ''Book A'', Some ''Pkg1'', Some ''Math; Physics'', ''10.1/aaa''),
      (Some ''Book B'', Some ''Pkg1'', Some ''Math'', ''10.1/bbb''),
      (Some ''Book C'', Some ''Pkg2'', Some ''Physics'', ''10.1/ccc'')]"

definition failing_world :: world where
  \<comment> \<open>as \<open>plain_world\<close>, with every request answered with status 404\<close>
  "failing_world = \<lparr>fs = Map.empty, refused = (\<lambda>_. False),
     server = (\<lambda>_ _. Reply 404 []), trace = []\<rparr>"

definition blocked_world :: world where
  \<comment> \<open>as \<open>plain_world\<close>, with a directory where the file of Book A would go\<close>
  "blocked_world = \<lparr>fs = [Path False [''Book-A.pdf''] \<mapsto> Dir], refused = (\<lambda>_. False),
     server = (\<lambda>_ _. Reply 200 ''content''), trace = []\<rparr>"

definition plain_world :: world where
  \<comment> \<open>nothing on disk but the current directory, nothing refused, every request
     answered with status 200\<close>
  "plain_world = \<lparr>fs = Map.empty, refused = (\<lambda>_. False),
     server = (\<lambda>_ _. Reply 200 ''content''), trace = []\<rparr>"

definition outcome_trace :: "(error \<times> world) + world \<Rightarrow> event list" where
  \<comment> \<open>what a call did, whether it returned or raised\<close>
  "outcome_trace r = (case r of Inl (e, w) \<Rightarrow> trace w | Inr w \<Rightarrow> trace w)"

definition outcome_error :: "(error \<times> world) + world \<Rightarrow> error option" where
  "outcome_error r = (case r of Inl (e, w) \<Rightarrow> Some e | Inr w \<Rightarrow> None)"

section \<open>Properties\<close>

subsection \<open>The sample listing\<close>

lemma setup_example: "setup_globals init_globals example_sheet = Inr example_index"
  by code_simp

lemma setup_dotted: "setup_globals init_globals dotted_sheet = Inr dotted_index"
  by code_simp

subsection \<open>Listing books by topic ID\<close>

text \<open>
  C1. Listing the books of a subject ID should answer every ID \<open>i\<close> with
  \<open>P < i \<le> P + S\<close>. The sample listing has two packages and two subjects, so the
  subject Math has ID 3; asked for subject 3, \<^verbatim>\<open>print_books_in_topic\<close> prints that
  there is no subject with that ID, because it compares the ID with \<open>S\<close> and not with
  \<open>P + S\<close>.
\<close>

theorem print_books_in_topic_rejects_valid_subject:
  "setup_globals init_globals example_sheet = Inr example_index \<and>
   length (PACKAGES_RELS example_index) = 2 \<and>
   length (SUBJECTS_RELS example_index) = 2 \<and>
   dict_get (IDS_OF_SUBJECTS example_index) ''Math'' = Inr 3 \<and>
   print_books_in_topic example_index (Some [3]) None = Inr [''NO SUBJECT WITH ID = 3.'']"
  by code_simp

subsection \<open>Subject names\<close>

lemma split_on_no_sep: "sep \<notin> set s \<Longrightarrow> split_on sep s = [s]"
  by (induction s) auto

lemma subject_names_single:
  "CHR '';'' \<notin> set a \<Longrightarrow> subject_names a = [truncate_name (py_strip a)]"
  by (simp add: subject_names_def split_on_no_sep)

lemma index_book_subject_names:
  "subject_names a = subject_names b \<Longrightarrow>
   index_book st (t, p, Some a, d) = index_book st (t, p, Some b, d)"
  by (simp add: index_book_def split: prod.splits)

lemma read_rows_append:
  "read_rows (xs @ ys) =
     (case read_rows xs of
        Inl e \<Rightarrow> Inl e
      | Inr bs \<Rightarrow> (case read_rows ys of Inl e \<Rightarrow> Inl e | Inr cs \<Rightarrow> Inr (bs @ cs)))"
  by (induction xs) (auto split: sum.splits)

lemma index_books_append:
  "index_books st (xs @ ys) =
     (case index_books st xs of Inl e \<Rightarrow> Inl e | Inr st' \<Rightarrow> index_books st' ys)"
  by (induction xs arbitrary: st) (auto split: sum.splits)

lemma length_truncate_name: "length (truncate_name s) \<le> 50"
  by (simp add: truncate_name_def LONGEST_def)

lemma truncate_name_long: "50 < length s \<Longrightarrow> truncate_name s = take 47 s @ ''...''"
  by (simp add: truncate_name_def LONGEST_def)

lemma setup_globals_same_names:
  assumes "subject_names a = subject_names b"
  shows "setup_globals g (header # pre @ (t, p, Some a, d) # post) =
         setup_globals g (header # pre @ (t, p, Some b, d) # post)"
  using assms
  by (auto simp add: setup_globals_def get_raw_list_of_books_def read_rows_append
        index_books_append read_row_def index_book_subject_names
      split: sum.splits option.splits)

subsection \<open>Destination paths\<close>

text \<open>
  C8. The file of a book should be named by its whole title, with hyphens for the
  whitespace, and the extension. For the title \<^verbatim>\<open>Node.js Basics\<close> the hyphenated
  name is \<^verbatim>\<open>Node.js-Basics\<close>, and \<^verbatim>\<open>with_suffix\<close> takes everything from its last dot
  as an old suffix to replace: the file written is \<^verbatim>\<open>out/Node.pdf\<close>.
\<close>

theorem download_book_cuts_dotted_title:
  "setup_globals init_globals dotted_sheet = Inr dotted_index \<and>
   py_join ''-'' (py_split ''Node.js Basics'') = ''Node.js-Basics'' \<and>
   outcome_error
     (download_books dotted_index [1] (Path False [''out'']) ''pdf'' False plain_world) = None \<and>
   outcome_trace
     (download_books dotted_index [1] (Path False [''out'']) ''pdf'' False plain_world) =
     [GET ''10.1/njs'' ''https://link.springer.com/content/pdf/10.1%2Fnjs.pdf'',
      WRITE ''10.1/njs'' (Path False [''out'', ''Node.pdf''])]"
  by code_simp

subsection \<open>Downloading before the tables are filled\<close>

text \<open>
  With \<^verbatim>\<open>BOOKS_TITLES\<close> empty, \<^verbatim>\<open>download_books\<close> calls \<^verbatim>\<open>setup_globals()\<close> without
  the argument that function requires, so a supported format ends in \<^verbatim>\<open>TypeError\<close>
  whatever the topic IDs are.
\<close>

lemma download_books_before_setup:
  "setup_globals init_globals [header_row] = Inr init_globals \<and>
   download_books init_globals topics dest ''pdf'' grouped w = Inl (TypeError, w)"
  by (simp add: setup_globals_def get_raw_list_of_books_def read_row_def header_row_def
      assign_ids_def sorted_packages_def enumerate_def init_globals_def
      download_books_def dict_get_def LINKS_def)

section \<open>The index\<close>

subsection \<open>Keys of the tables\<close>

lemma add_keys_Nil [simp]: "add_keys ks [] = ks"
  by (simp add: add_keys_def)

lemma add_keys_Cons [simp]: "add_keys ks (k # new) = add_keys (add_key ks k) new"
  by (simp add: add_keys_def)

lemma add_keys_append: "add_keys ks (xs @ ys) = add_keys (add_keys ks xs) ys"
  by (simp add: add_keys_def)

lemma set_add_key [simp]: "set (add_key ks k) = insert k (set ks)"
  by (auto simp: add_key_def)

lemma distinct_add_key [simp]: "distinct (add_key ks k) = distinct ks"
  by (auto simp: add_key_def)

lemma set_add_keys [simp]: "set (add_keys ks new) = set ks \<union> set new"
  by (induction new arbitrary: ks) auto

lemma distinct_add_keys [simp]: "distinct (add_keys ks new) = distinct ks"
  by (induction new arbitrary: ks) auto

lemma add_key_idem [simp]: "add_key (add_key ks k) k = add_key ks k"
  by (simp add: add_key_def)

lemma add_keys_known: "set new \<subseteq> set ks \<Longrightarrow> add_keys ks new = ks"
  by (induction new arbitrary: ks) (auto simp: add_key_def)

lemma keys_update: "map fst (AList.update k v d) = add_key (map fst d) k"
  by (simp add: update_keys add_key_def)

lemma keys_dd_append [simp]: "map fst (dd_append d k v) = add_key (map fst d) k"
  by (simp add: dd_append_def keys_update)

lemma keys_dd_add [simp]: "map fst (dd_add d k v) = add_key (map fst d) k"
  by (simp add: dd_add_def keys_update)

lemma subject_names_nonempty [simp]: "subject_names field \<noteq> []"
proof -
  have "split_on c s \<noteq> []" for c s
    by (induction s) (auto split: list.splits)
  then show ?thesis by (simp add: subject_names_def)
qed

text \<open>The loop over the subjects of one record.\<close>

lemma add_keys_same: "ss \<noteq> [] \<Longrightarrow> add_keys ks (map (\<lambda>_. p) ss) = add_key ks p"
  by (cases ss) (auto intro!: add_keys_known)

lemma add_subject_fields:
  "add_subject p d (g, sb) s = (g1, sb1) \<Longrightarrow>
     map fst (SUBJECTS_RELS g1) = add_key (map fst (SUBJECTS_RELS g)) s \<and>
     map fst sb1 = add_key (map fst sb) s \<and>
     map fst (PACKAGES_RELS g1) = add_key (map fst (PACKAGES_RELS g)) p \<and>
     BOOKS_TITLES g1 = BOOKS_TITLES g \<and> BOOKS_PACKAGES g1 = BOOKS_PACKAGES g \<and>
     IDS_OF_PACKAGES g1 = IDS_OF_PACKAGES g \<and> IDS_OF_SUBJECTS g1 = IDS_OF_SUBJECTS g \<and>
     TOPICS_BOOKS g1 = TOPICS_BOOKS g \<and> TOPICS_IDS g1 = TOPICS_IDS g"
  by (auto simp: add_subject_def)

lemma add_subjects_fields:
  "foldl (add_subject p d) (g, sb) ss = (g', sb') \<Longrightarrow>
     map fst (SUBJECTS_RELS g') = add_keys (map fst (SUBJECTS_RELS g)) ss \<and>
     map fst sb' = add_keys (map fst sb) ss \<and>
     map fst (PACKAGES_RELS g') = add_keys (map fst (PACKAGES_RELS g)) (map (\<lambda>_. p) ss) \<and>
     BOOKS_TITLES g' = BOOKS_TITLES g \<and> BOOKS_PACKAGES g' = BOOKS_PACKAGES g \<and>
     IDS_OF_PACKAGES g' = IDS_OF_PACKAGES g \<and> IDS_OF_SUBJECTS g' = IDS_OF_SUBJECTS g \<and>
     TOPICS_BOOKS g' = TOPICS_BOOKS g \<and> TOPICS_IDS g' = TOPICS_IDS g"
proof (induction ss arbitrary: g sb)
  case Nil
  then show ?case by simp
next
  case (Cons s ss)
  obtain g1 sb1 where 1: "add_subject p d (g, sb) s = (g1, sb1)"
    by (meson surj_pair)
  with Cons.prems have 2: "foldl (add_subject p d) (g1, sb1) ss = (g', sb')"
    by simp
  show ?case
    using Cons.IH [OF 2] add_subject_fields [OF 1] by simp
qed

lemma add_subjects_keys:
  "foldl (add_subject p d) (g, sb) ss = (g', sb') \<Longrightarrow> ss \<noteq> [] \<Longrightarrow>
     map fst (SUBJECTS_RELS g') = add_keys (map fst (SUBJECTS_RELS g)) ss \<and>
     map fst sb' = add_keys (map fst sb) ss \<and>
     map fst (PACKAGES_RELS g') = add_key (map fst (PACKAGES_RELS g)) p \<and>
     BOOKS_TITLES g' = BOOKS_TITLES g \<and> BOOKS_PACKAGES g' = BOOKS_PACKAGES g \<and>
     IDS_OF_PACKAGES g' = IDS_OF_PACKAGES g \<and> IDS_OF_SUBJECTS g' = IDS_OF_SUBJECTS g \<and>
     TOPICS_BOOKS g' = TOPICS_BOOKS g \<and> TOPICS_IDS g' = TOPICS_IDS g"
  using add_subjects_fields [of p d g sb ss g' sb'] by (simp add: add_keys_same)

lemma index_book_keys:
  assumes "index_book (g, pb, sb) b = Inr (g', pb', sb')"
  shows "map fst (PACKAGES_RELS g') = add_key (map fst (PACKAGES_RELS g)) (book_package b)"
    and "map fst pb' = add_key (map fst pb) (book_package b)"
    and "map fst (SUBJECTS_RELS g') = add_keys (map fst (SUBJECTS_RELS g)) (book_subjects b)"
    and "map fst sb' = add_keys (map fst sb) (book_subjects b)"
    and "IDS_OF_PACKAGES g' = IDS_OF_PACKAGES g" and "IDS_OF_SUBJECTS g' = IDS_OF_SUBJECTS g"
    and "TOPICS_BOOKS g' = TOPICS_BOOKS g" and "TOPICS_IDS g' = TOPICS_IDS g"
proof -
  obtain t p s d where b: "b = (t, p, s, d)" by (cases b) auto
  with assms obtain f where s: "s = Some f"
    by (auto simp: index_book_def split: option.splits)
  obtain g2 sb2 where f: "foldl (add_subject p d)
      (g\<lparr>BOOKS_PACKAGES := AList.update d p (BOOKS_PACKAGES g)\<rparr>, sb) (subject_names f) = (g2, sb2)"
    by (meson surj_pair)
  from assms b s f have g': "g' = g2\<lparr>BOOKS_TITLES := AList.update d t (BOOKS_TITLES g2)\<rparr>"
    and pb': "pb' = dd_append pb p d" and sb': "sb' = sb2"
    by (auto simp: index_book_def)
  note k = add_subjects_keys [OF f subject_names_nonempty]
  show "map fst (PACKAGES_RELS g') = add_key (map fst (PACKAGES_RELS g)) (book_package b)"
    using k g' b by (simp add: book_package_def)
  show "map fst pb' = add_key (map fst pb) (book_package b)"
    using pb' b by (simp add: book_package_def)
  show "map fst (SUBJECTS_RELS g') = add_keys (map fst (SUBJECTS_RELS g)) (book_subjects b)"
    using k g' b s by (simp add: book_subjects_def)
  show "map fst sb' = add_keys (map fst sb) (book_subjects b)"
    using k sb' b s by (simp add: book_subjects_def)
  show "IDS_OF_PACKAGES g' = IDS_OF_PACKAGES g" "IDS_OF_SUBJECTS g' = IDS_OF_SUBJECTS g"
     "TOPICS_BOOKS g' = TOPICS_BOOKS g" "TOPICS_IDS g' = TOPICS_IDS g"
    using k g' by simp_all
qed

lemma index_books_keys:
  "index_books (g, pb, sb) bs = Inr (g', pb', sb') \<Longrightarrow>
     map fst (PACKAGES_RELS g') = add_keys (map fst (PACKAGES_RELS g)) (map book_package bs) \<and>
     map fst pb' = add_keys (map fst pb) (map book_package bs) \<and>
     map fst (SUBJECTS_RELS g') =
       add_keys (map fst (SUBJECTS_RELS g)) (concat (map book_subjects bs)) \<and>
     map fst sb' = add_keys (map fst sb) (concat (map book_subjects bs)) \<and>
     IDS_OF_PACKAGES g' = IDS_OF_PACKAGES g \<and> IDS_OF_SUBJECTS g' = IDS_OF_SUBJECTS g \<and>
     TOPICS_BOOKS g' = TOPICS_BOOKS g \<and> TOPICS_IDS g' = TOPICS_IDS g"
proof (induction bs arbitrary: g pb sb)
  case Nil
  then show ?case by simp
next
  case (Cons b bs)
  from Cons.prems obtain g1 pb1 sb1 where
    1: "index_book (g, pb, sb) b = Inr (g1, pb1, sb1)" and
    2: "index_books (g1, pb1, sb1) bs = Inr (g', pb', sb')"
    by (auto split: sum.splits)
  show ?case
    using Cons.IH [OF 2] index_book_keys [OF 1]
    by (simp add: add_keys_append)
qed

lemma index_books_succeeds:
  "isl (index_books st bs) \<longleftrightarrow> (\<exists>b \<in> set bs. fst (snd (snd b)) = None)"
proof (induction bs arbitrary: st)
  case Nil
  then show ?case by simp
next
  case (Cons b bs)
  obtain g pb sb where st: "st = (g, pb, sb)" using prod_cases3 by blast
  obtain t p s d where b: "b = (t, p, s, d)" by (cases b) auto
  show ?case
  proof (cases s)
    case None
    then show ?thesis using st b by (simp add: index_book_def)
  next
    case (Some f)
    then have "\<not> isl (index_book st b)"
      using st b by (simp add: index_book_def Let_def split: prod.splits)
    then obtain st1 where "index_book st b = Inr st1"
      by (cases "index_book st b") auto
    then show ?thesis using Cons.IH [of st1] b Some by simp
  qed
qed

lemma index_books_error:
  "index_books st bs = Inl e \<Longrightarrow> e = AttributeError"
proof (induction bs arbitrary: st)
  case Nil
  then show ?case by simp
next
  case (Cons b bs)
  then show ?case
    by (auto simp: index_book_def Let_def split: sum.splits prod.splits option.splits)
qed

lemma update_fresh: "k \<notin> fst ` set al \<Longrightarrow> AList.update k v al = al @ [(k, v)]"
  by (induction al) auto

lemma update_known:
  "map_of al k = Some v \<Longrightarrow> AList.update k v al = al"
  by (rule update_triv)

lemma length_enumerate [simp]: "length (enumerate s xs) = length xs"
  by (simp add: enumerate_def)

lemma map_snd_enumerate [simp]: "map snd (enumerate s xs) = xs"
  by (simp add: enumerate_def)

lemma upto_from_nat: "map (\<lambda>i. s + int i) [0..<n] = [s..s + int n - 1]"
proof (induction n)
  case 0
  then show ?case by simp
next
  case (Suc n)
  have "[s..s + int (Suc n) - 1] = [s..s + int n - 1] @ [s + int n]"
    using upto_rec2 [of s "s + int n"] by simp
  with Suc show ?case by simp
qed

lemma map_fst_enumerate: "map fst (enumerate s xs) = [s..s + int (length xs) - 1]"
  by (simp add: enumerate_def upto_from_nat)

text \<open>Numbering the topics.\<close>

lemma number_package_fields:
  "PACKAGES_RELS (foldl number_package g kvs) = PACKAGES_RELS g \<and>
   SUBJECTS_RELS (foldl number_package g kvs) = SUBJECTS_RELS g \<and>
   BOOKS_TITLES (foldl number_package g kvs) = BOOKS_TITLES g \<and>
   BOOKS_PACKAGES (foldl number_package g kvs) = BOOKS_PACKAGES g \<and>
   TOPICS_BOOKS (foldl number_package g kvs) = TOPICS_BOOKS g \<and>
   IDS_OF_SUBJECTS (foldl number_package g kvs) = IDS_OF_SUBJECTS g"
  by (induction kvs arbitrary: g) (auto simp: number_package_def)

lemma number_subject_fields:
  "PACKAGES_RELS (foldl number_subject g kvs) = PACKAGES_RELS g \<and>
   SUBJECTS_RELS (foldl number_subject g kvs) = SUBJECTS_RELS g \<and>
   BOOKS_TITLES (foldl number_subject g kvs) = BOOKS_TITLES g \<and>
   BOOKS_PACKAGES (foldl number_subject g kvs) = BOOKS_PACKAGES g \<and>
   TOPICS_BOOKS (foldl number_subject g kvs) = TOPICS_BOOKS g \<and>
   IDS_OF_PACKAGES (foldl number_subject g kvs) = IDS_OF_PACKAGES g"
  by (induction kvs arbitrary: g) (auto simp: number_subject_def)

lemma number_package_fresh:
  "distinct (map snd kvs) \<Longrightarrow> set (map snd kvs) \<inter> fst ` set (IDS_OF_PACKAGES g) = {} \<Longrightarrow>
   IDS_OF_PACKAGES (foldl number_package g kvs) = IDS_OF_PACKAGES g @ map (\<lambda>p. (snd p, fst p)) kvs"
proof (induction kvs arbitrary: g)
  case Nil
  then show ?case by simp
next
  case (Cons kv kvs)
  obtain i t where kv: "kv = (i, t)" by (cases kv)
  have ids: "IDS_OF_PACKAGES (number_package g (i, t)) = IDS_OF_PACKAGES g @ [(t, i)]"
    using Cons.prems unfolding kv by (simp add: number_package_def update_fresh)
  have "IDS_OF_PACKAGES (foldl number_package (number_package g (i, t)) kvs) =
      IDS_OF_PACKAGES (number_package g (i, t)) @ map (\<lambda>p. (snd p, fst p)) kvs"
  proof (rule Cons.IH)
    show "distinct (map snd kvs)"
      using Cons.prems by simp
    show "set (map snd kvs) \<inter> fst ` set (IDS_OF_PACKAGES (number_package g (i, t))) = {}"
      using Cons.prems unfolding kv ids by auto
  qed
  then show ?case
    unfolding kv by (simp add: ids)
qed

lemma number_package_ids_fresh:
  "distinct (map fst kvs) \<Longrightarrow> set (map fst kvs) \<inter> fst ` set (TOPICS_IDS g) = {} \<Longrightarrow>
   TOPICS_IDS (foldl number_package g kvs) = TOPICS_IDS g @ kvs"
proof (induction kvs arbitrary: g)
  case Nil
  then show ?case by simp
next
  case (Cons kv kvs)
  obtain i t where kv: "kv = (i, t)" by (cases kv)
  have ids: "TOPICS_IDS (number_package g (i, t)) = TOPICS_IDS g @ [(i, t)]"
    using Cons.prems unfolding kv by (simp add: number_package_def update_fresh)
  have "TOPICS_IDS (foldl number_package (number_package g (i, t)) kvs) =
      TOPICS_IDS (number_package g (i, t)) @ kvs"
  proof (rule Cons.IH)
    show "distinct (map fst kvs)"
      using Cons.prems by simp
    show "set (map fst kvs) \<inter> fst ` set (TOPICS_IDS (number_package g (i, t))) = {}"
      using Cons.prems unfolding kv ids by auto
  qed
  then show ?case
    unfolding kv by (simp add: ids)
qed

lemma number_subject_fresh:
  "distinct (map snd kvs) \<Longrightarrow> set (map snd kvs) \<inter> fst ` set (IDS_OF_SUBJECTS g) = {} \<Longrightarrow>
   IDS_OF_SUBJECTS (foldl number_subject g kvs) = IDS_OF_SUBJECTS g @ map (\<lambda>p. (snd p, fst p)) kvs"
proof (induction kvs arbitrary: g)
  case Nil
  then show ?case by simp
next
  case (Cons kv kvs)
  obtain i t where kv: "kv = (i, t)" by (cases kv)
  have ids: "IDS_OF_SUBJECTS (number_subject g (i, t)) = IDS_OF_SUBJECTS g @ [(t, i)]"
    using Cons.prems unfolding kv by (simp add: number_subject_def update_fresh)
  have "IDS_OF_SUBJECTS (foldl number_subject (number_subject g (i, t)) kvs) =
      IDS_OF_SUBJECTS (number_subject g (i, t)) @ map (\<lambda>p. (snd p, fst p)) kvs"
  proof (rule Cons.IH)
    show "distinct (map snd kvs)"
      using Cons.prems by simp
    show "set (map snd kvs) \<inter> fst ` set (IDS_OF_SUBJECTS (number_subject g (i, t))) = {}"
      using Cons.prems unfolding kv ids by auto
  qed
  then show ?case
    unfolding kv by (simp add: ids)
qed

lemma number_subject_ids_fresh:
  "distinct (map fst kvs) \<Longrightarrow> set (map fst kvs) \<inter> fst ` set (TOPICS_IDS g) = {} \<Longrightarrow>
   TOPICS_IDS (foldl number_subject g kvs) = TOPICS_IDS g @ map (\<lambda>p. (fst p, Some (snd p))) kvs"
proof (induction kvs arbitrary: g)
  case Nil
  then show ?case by simp
next
  case (Cons kv kvs)
  obtain i t where kv: "kv = (i, t)" by (cases kv)
  have ids: "TOPICS_IDS (number_subject g (i, t)) = TOPICS_IDS g @ [(i, Some t)]"
    using Cons.prems unfolding kv by (simp add: number_subject_def update_fresh)
  have "TOPICS_IDS (foldl number_subject (number_subject g (i, t)) kvs) =
      TOPICS_IDS (number_subject g (i, t)) @ map (\<lambda>p. (fst p, Some (snd p))) kvs"
  proof (rule Cons.IH)
    show "distinct (map fst kvs)"
      using Cons.prems by simp
    show "set (map fst kvs) \<inter> fst ` set (TOPICS_IDS (number_subject g (i, t))) = {}"
      using Cons.prems unfolding kv ids by auto
  qed
  then show ?case
    unfolding kv by (simp add: ids)
qed

lemma number_package_known:
  "\<forall>(i, t) \<in> set kvs. map_of (IDS_OF_PACKAGES g) t = Some i \<and> map_of (TOPICS_IDS g) i = Some t \<Longrightarrow>
   foldl number_package g kvs = g"
  by (induction kvs) (auto simp: number_package_def update_triv)

lemma number_subject_known:
  "\<forall>(i, t) \<in> set kvs. map_of (IDS_OF_SUBJECTS g) t = Some i \<and> map_of (TOPICS_IDS g) i = Some (Some t) \<Longrightarrow>
   foldl number_subject g kvs = g"
  by (induction kvs) (auto simp: number_subject_def update_triv)

text \<open>Keying the book lists by topic ID.\<close>

lemma key_packages_fields:
  "key_packages g pb = Inr g' \<Longrightarrow>
     PACKAGES_RELS g' = PACKAGES_RELS g \<and> SUBJECTS_RELS g' = SUBJECTS_RELS g \<and>
     BOOKS_TITLES g' = BOOKS_TITLES g \<and> BOOKS_PACKAGES g' = BOOKS_PACKAGES g \<and>
     IDS_OF_PACKAGES g' = IDS_OF_PACKAGES g \<and> IDS_OF_SUBJECTS g' = IDS_OF_SUBJECTS g \<and>
     TOPICS_IDS g' = TOPICS_IDS g"
proof (induction g pb rule: key_packages.induct)
  case (1 g)
  then show ?case by simp
next
  case (2 g topic books rest)
  then show ?case by (auto split: sum.splits)
qed

lemma key_subjects_fields:
  "key_subjects g sb = Inr g' \<Longrightarrow>
     PACKAGES_RELS g' = PACKAGES_RELS g \<and> SUBJECTS_RELS g' = SUBJECTS_RELS g \<and>
     BOOKS_TITLES g' = BOOKS_TITLES g \<and> BOOKS_PACKAGES g' = BOOKS_PACKAGES g \<and>
     IDS_OF_PACKAGES g' = IDS_OF_PACKAGES g \<and> IDS_OF_SUBJECTS g' = IDS_OF_SUBJECTS g \<and>
     TOPICS_IDS g' = TOPICS_IDS g"
proof (induction g sb rule: key_subjects.induct)
  case (1 g)
  then show ?case by simp
next
  case (2 g topic books rest)
  then show ?case by (auto split: sum.splits)
qed

lemma key_packages_succeeds:
  "fst ` set pb \<subseteq> fst ` set (IDS_OF_PACKAGES g) \<Longrightarrow> \<not> isl (key_packages g pb)"
proof (induction g pb rule: key_packages.induct)
  case (1 g)
  then show ?case by simp
next
  case (2 g topic books rest)
  then obtain i where "map_of (IDS_OF_PACKAGES g) topic = Some i"
    by (metis (no_types, lifting) domD dom_map_of_conv_image_fst fst_conv image_subset_iff list.set_intros(1))
  with 2 show ?case by (auto simp: dict_get_def)
qed

lemma key_subjects_succeeds:
  "fst ` set sb \<subseteq> fst ` set (IDS_OF_SUBJECTS g) \<Longrightarrow> \<not> isl (key_subjects g sb)"
proof (induction g sb rule: key_subjects.induct)
  case (1 g)
  then show ?case by simp
next
  case (2 g topic books rest)
  then obtain i where "map_of (IDS_OF_SUBJECTS g) topic = Some i"
    by (metis (no_types, lifting) domD dom_map_of_conv_image_fst fst_conv image_subset_iff list.set_intros(1))
  with 2 show ?case by (auto simp: dict_get_def)
qed

subsection \<open>Reading and ID assignment\<close>

lemma read_row_cases:
  "read_row r = (if row_doi r = None then Inl AttributeError else Inr (read_book r))"
  by (auto simp: read_row_def row_doi_def read_book_def split: prod.splits option.splits)

lemma read_rows_cases:
  "read_rows rs =
     (if \<exists>r \<in> set rs. row_doi r = None then Inl AttributeError else Inr (map read_book rs))"
  by (induction rs) (auto simp: read_row_cases)

lemma get_raw_cases:
  "get_raw_list_of_books sheet =
     (if sheet = [] then Inl StopIteration
      else if \<exists>r \<in> set sheet. row_doi r = None then Inl AttributeError
      else Inr (map read_book (tl sheet)))"
  by (cases sheet) (auto simp: get_raw_list_of_books_def read_row_cases read_rows_cases)

lemma package_read_book [simp]: "book_package (read_book r) = package_cell r"
  by (simp add: book_package_def read_book_def package_cell_def split: prod.splits)

lemma subjects_read_book [simp]: "fst (snd (snd (read_book r))) = subjects_cell r"
  by (simp add: read_book_def subjects_cell_def split: prod.splits)

lemma index_books_cases:
  "index_books st bs = Inl e \<longleftrightarrow> e = AttributeError \<and> (\<exists>b \<in> set bs. fst (snd (snd b)) = None)"
  using index_books_succeeds [of st bs] index_books_error [of st bs]
  by (cases "index_books st bs") auto

text \<open>Assigning IDs in tables that hold none yet.\<close>

lemma assign_ids_result:
  assumes "assign_ids (g, pb, sb) = Inr g'"
  shows "\<exists>g2 g3. sorted_packages (map fst (PACKAGES_RELS g)) = Inr (sort (map fst (PACKAGES_RELS g))) \<and>
     g2 = foldl number_subject (foldl number_package g (enumerate 1 (sort (map fst (PACKAGES_RELS g)))))
            (enumerate (1 + int (length (PACKAGES_RELS g))) (sort (map fst (SUBJECTS_RELS g)))) \<and>
     key_packages g2 pb = Inr g3 \<and> key_subjects g3 sb = Inr g'"
  using assms
  by (auto simp: assign_ids_def Let_def sorted_packages_def number_package_fields
      split: sum.splits if_splits)

lemma assign_ids_fresh:
  assumes a: "assign_ids (g, pb, sb) = Inr g'"
    and f: "IDS_OF_PACKAGES g = []" "IDS_OF_SUBJECTS g = []" "TOPICS_IDS g = []"
    and d: "distinct (map fst (PACKAGES_RELS g))" "distinct (map fst (SUBJECTS_RELS g))"
  shows "IDS_OF_PACKAGES g' =
           map (\<lambda>p. (snd p, fst p)) (enumerate 1 (sort (map fst (PACKAGES_RELS g))))"
    and "IDS_OF_SUBJECTS g' =
           map (\<lambda>p. (snd p, fst p))
             (enumerate (1 + int (length (PACKAGES_RELS g))) (sort (map fst (SUBJECTS_RELS g))))"
    and "TOPICS_IDS g' =
           enumerate 1 (sort (map fst (PACKAGES_RELS g))) @
           map (\<lambda>p. (fst p, Some (snd p)))
             (enumerate (1 + int (length (PACKAGES_RELS g))) (sort (map fst (SUBJECTS_RELS g))))"
    and "PACKAGES_RELS g' = PACKAGES_RELS g" and "SUBJECTS_RELS g' = SUBJECTS_RELS g"
proof -
  let ?ps = "sort (map fst (PACKAGES_RELS g))"
  let ?ss = "sort (map fst (SUBJECTS_RELS g))"
  let ?g1 = "foldl number_package g (enumerate 1 ?ps)"
  let ?g2 = "foldl number_subject ?g1 (enumerate (1 + int (length (PACKAGES_RELS g))) ?ss)"
  from assign_ids_result [OF a] obtain g3 where
    kp: "key_packages ?g2 pb = Inr g3" and ks: "key_subjects g3 sb = Inr g'"
    by auto
  have ip1: "IDS_OF_PACKAGES ?g1 = map (\<lambda>p. (snd p, fst p)) (enumerate 1 ?ps)"
    using number_package_fresh [of "enumerate 1 ?ps" g] f d by simp
  have ti1: "TOPICS_IDS ?g1 = enumerate 1 ?ps"
    using number_package_ids_fresh [of "enumerate 1 ?ps" g] f
    by (simp add: map_fst_enumerate)
  have is2: "IDS_OF_SUBJECTS ?g2 =
      map (\<lambda>p. (snd p, fst p)) (enumerate (1 + int (length (PACKAGES_RELS g))) ?ss)"
    using number_subject_fresh [of "enumerate (1 + int (length (PACKAGES_RELS g))) ?ss" ?g1]
      f d number_package_fields [of g "enumerate 1 ?ps"] by simp
  have "set (map fst (enumerate (1 + int (length (PACKAGES_RELS g))) ?ss)) \<inter>
      fst ` set (TOPICS_IDS ?g1) = {}"
    unfolding ti1 by (auto simp: map_fst_enumerate simp flip: set_map)
  then have ti2: "TOPICS_IDS ?g2 = enumerate 1 ?ps @
      map (\<lambda>p. (fst p, Some (snd p))) (enumerate (1 + int (length (PACKAGES_RELS g))) ?ss)"
    using number_subject_ids_fresh [of "enumerate (1 + int (length (PACKAGES_RELS g))) ?ss" ?g1]
    by (simp add: map_fst_enumerate ti1)
  note k = key_packages_fields [OF kp] key_subjects_fields [OF ks]
    number_subject_fields [of ?g1 "enumerate (1 + int (length (PACKAGES_RELS g))) ?ss"]
    number_package_fields [of g "enumerate 1 ?ps"]
  show "IDS_OF_PACKAGES g' = map (\<lambda>p. (snd p, fst p)) (enumerate 1 ?ps)"
    using k ip1 by simp
  show "IDS_OF_SUBJECTS g' =
      map (\<lambda>p. (snd p, fst p)) (enumerate (1 + int (length (PACKAGES_RELS g))) ?ss)"
    using k is2 by simp
  show "TOPICS_IDS g' = enumerate 1 ?ps @
      map (\<lambda>p. (fst p, Some (snd p))) (enumerate (1 + int (length (PACKAGES_RELS g))) ?ss)"
    using k ti2 by simp
  show "PACKAGES_RELS g' = PACKAGES_RELS g" "SUBJECTS_RELS g' = SUBJECTS_RELS g"
    using k by simp_all
qed

lemma setup_globals_parts:
  "setup_globals g sheet = Inr g' \<Longrightarrow>
     \<exists>books h pb sb. get_raw_list_of_books sheet = Inr books \<and>
       index_books (g, [], []) books = Inr (h, pb, sb) \<and> assign_ids (h, pb, sb) = Inr g'"
  by (auto simp: setup_globals_def split: sum.splits)

lemma map_of_swap:
  "distinct (map snd xs) \<Longrightarrow> (i, t) \<in> set xs \<Longrightarrow> map_of (map (\<lambda>p. (snd p, fst p)) xs) t = Some i"
  by (rule map_of_is_SomeI) (force simp: comp_def)+

lemma upto_append_from_one:
  "0 \<le> n \<Longrightarrow> 0 \<le> m \<Longrightarrow> [1..n + m] = [1..n] @ [n + 1..n + m]"
proof (cases "n = 0")
  case True
  then show ?thesis by simp
next
  case False
  assume "0 \<le> n" "0 \<le> m"
  with False show ?thesis
    using upto_split2 [of 1 n "n + m"] by simp
qed

lemma in_set_enumerate:
  "(i, t) \<in> set (enumerate s xs) \<Longrightarrow> s \<le> i \<and> i < s + int (length xs) \<and> t \<in> set xs"
  by (auto simp: enumerate_def in_set_zip)

lemma distinct_fst_enumerate [simp]: "distinct (map fst (enumerate s xs))"
  by (simp add: map_fst_enumerate)

lemma assign_ids_known:
  assumes "sorted_packages (map fst (PACKAGES_RELS h)) = Inr ps"
    and "foldl number_package h (enumerate 1 ps) = h"
    and "foldl number_subject h
           (enumerate (1 + int (length (PACKAGES_RELS h))) (sort (map fst (SUBJECTS_RELS h)))) = h"
    and "key_packages h pb = Inr g3" and "key_subjects g3 sb = Inr g2"
  shows "assign_ids (h, pb, sb) = Inr g2"
  using assms by (simp add: assign_ids_def Let_def)

lemma setup_globals_again:
  assumes s: "setup_globals init_globals sheet = Inr g"
  shows "\<exists>g2. setup_globals g sheet = Inr g2 \<and> IDS_OF_PACKAGES g2 = IDS_OF_PACKAGES g \<and>
     IDS_OF_SUBJECTS g2 = IDS_OF_SUBJECTS g \<and> TOPICS_IDS g2 = TOPICS_IDS g"
proof -
  from setup_globals_parts [OF s] obtain books h pb sb where
    r: "get_raw_list_of_books sheet = Inr books" and
    i: "index_books (init_globals, [], []) books = Inr (h, pb, sb)" and
    a: "assign_ids (h, pb, sb) = Inr g"
    by blast
  let ?pk = "map book_package books"
  let ?sj = "concat (map book_subjects books)"
  note k = index_books_keys [OF i]
  have kh: "map fst (PACKAGES_RELS h) = add_keys [] ?pk"
    "map fst (SUBJECTS_RELS h) = add_keys [] ?sj"
    "IDS_OF_PACKAGES h = []" "IDS_OF_SUBJECTS h = []" "TOPICS_IDS h = []"
    using k by (simp_all add: init_globals_def)
  have dh: "distinct (map fst (PACKAGES_RELS h))" "distinct (map fst (SUBJECTS_RELS h))"
    using kh by simp_all
  note f = assign_ids_fresh [OF a kh(3,4,5) dh]
  let ?K = "map fst (PACKAGES_RELS g)"
  let ?Ks = "map fst (SUBJECTS_RELS g)"
  have K: "?K = add_keys [] ?pk" "?Ks = add_keys [] ?sj"
    using f kh by simp_all
  have lenK: "length (PACKAGES_RELS h) = length (PACKAGES_RELS g)"
    using f by simp
  from assign_ids_result [OF a]
  have sp: "sorted_packages ?K = Inr (sort ?K)"
    using f by auto
  \<comment> \<open>the second run\<close>
  have "\<not> isl (index_books (g, [], []) books)"
    using index_books_succeeds [of "(g, [], [])" books]
      index_books_succeeds [of "(init_globals, [], [])" books] i by simp
  then obtain h2 pb2 sb2 where i2: "index_books (g, [], []) books = Inr (h2, pb2, sb2)"
    by (cases "index_books (g, [], []) books") auto
  note k2 = index_books_keys [OF i2]
  have K2: "map fst (PACKAGES_RELS h2) = ?K" "map fst (SUBJECTS_RELS h2) = ?Ks"
    using k2 K by (simp_all add: add_keys_known)
  have len2: "length (PACKAGES_RELS h2) = length (PACKAGES_RELS g)"
    using K2(1) by (metis length_map)
  have ids2: "IDS_OF_PACKAGES h2 = IDS_OF_PACKAGES g" "IDS_OF_SUBJECTS h2 = IDS_OF_SUBJECTS g"
    "TOPICS_IDS h2 = TOPICS_IDS g"
    using k2 by simp_all
  let ?E = "enumerate 1 (sort ?K)"
  let ?F = "enumerate (1 + int (length (PACKAGES_RELS g))) (sort ?Ks)"
  have ip: "IDS_OF_PACKAGES g = map (\<lambda>p. (snd p, fst p)) ?E"
    and isb: "IDS_OF_SUBJECTS g = map (\<lambda>p. (snd p, fst p)) ?F"
    and ti: "TOPICS_IDS g = ?E @ map (\<lambda>p. (fst p, Some (snd p))) ?F"
    unfolding f(4,5) by (rule f(1) f(2) f(3))+
  have dti: "distinct (map fst (TOPICS_IDS g))"
    unfolding ti by (auto simp: map_fst_enumerate comp_def simp flip: set_map)
  have n1: "foldl number_package h2 ?E = h2"
  proof (rule number_package_known, clarify)
    fix i t assume m: "(i, t) \<in> set ?E"
    have "map_of (IDS_OF_PACKAGES g) t = Some i"
      unfolding ip using m K by (intro map_of_swap) simp_all
    moreover have "map_of (TOPICS_IDS g) i = Some t"
      using dti m by (intro map_of_is_SomeI) (simp_all add: ti)
    ultimately show "map_of (IDS_OF_PACKAGES h2) t = Some i \<and> map_of (TOPICS_IDS h2) i = Some t"
      using ids2 by simp
  qed
  have n2: "foldl number_subject h2 ?F = h2"
  proof (rule number_subject_known, clarify)
    fix i t assume m: "(i, t) \<in> set ?F"
    have "map_of (IDS_OF_SUBJECTS g) t = Some i"
      unfolding isb using m K by (intro map_of_swap) simp_all
    moreover have "map_of (TOPICS_IDS g) i = Some (Some t)"
      using dti m by (intro map_of_is_SomeI) (auto simp: ti intro!: image_eqI [of _ _ "(i, t)"])
    ultimately show "map_of (IDS_OF_SUBJECTS h2) t = Some i \<and>
        map_of (TOPICS_IDS h2) i = Some (Some t)"
      using ids2 by simp
  qed
  have "fst ` set pb2 \<subseteq> fst ` set (IDS_OF_PACKAGES h2)"
  proof -
    have "set (map fst pb2) = set ?pk" using k2 by simp
    moreover have "set (map fst (IDS_OF_PACKAGES h2)) = set ?pk"
      unfolding ids2 ip using K by (simp add: comp_def)
    ultimately show ?thesis by (metis set_map subset_refl)
  qed
  then obtain g3 where kp: "key_packages h2 pb2 = Inr g3"
    using key_packages_succeeds [of pb2 h2] by (cases "key_packages h2 pb2") auto
  note kf = key_packages_fields [OF kp]
  have "fst ` set sb2 \<subseteq> fst ` set (IDS_OF_SUBJECTS g3)"
  proof -
    have "set (map fst sb2) = set ?sj" using k2 by simp
    moreover have "set (map fst (IDS_OF_SUBJECTS g3)) = set ?sj"
      using kf ids2 K unfolding isb by (simp add: comp_def)
    ultimately show ?thesis by (metis set_map subset_refl)
  qed
  then obtain g2 where ks: "key_subjects g3 sb2 = Inr g2"
    using key_subjects_succeeds [of sb2 g3] by (cases "key_subjects g3 sb2") auto
  note sf = key_subjects_fields [OF ks]
  have "assign_ids (h2, pb2, sb2) = Inr g2"
    using sp n1 n2 kp ks K2 len2 by (intro assign_ids_known [where ps = "sort ?K"]) simp_all
  then have "setup_globals g sheet = Inr g2"
    using r i2 by (simp add: setup_globals_def)
  moreover have "IDS_OF_PACKAGES g2 = IDS_OF_PACKAGES g" "IDS_OF_SUBJECTS g2 = IDS_OF_SUBJECTS g"
    "TOPICS_IDS g2 = TOPICS_IDS g"
    using sf kf ids2 by simp_all
  ultimately show ?thesis by blast
qed

lemma setup_globals_ids:
  assumes s: "setup_globals init_globals sheet = Inr g"
  shows "\<exists>books.
     get_raw_list_of_books sheet = Inr books \<and>
     sorted (map fst (IDS_OF_PACKAGES g)) \<and> distinct (map fst (IDS_OF_PACKAGES g)) \<and>
     set (map fst (IDS_OF_PACKAGES g)) = set (map book_package books) \<and>
     map snd (IDS_OF_PACKAGES g) = [1..int (length (IDS_OF_PACKAGES g))] \<and>
     sorted (map fst (IDS_OF_SUBJECTS g)) \<and> distinct (map fst (IDS_OF_SUBJECTS g)) \<and>
     set (map fst (IDS_OF_SUBJECTS g)) = set (concat (map book_subjects books)) \<and>
     map snd (IDS_OF_SUBJECTS g) =
       [int (length (IDS_OF_PACKAGES g)) + 1..
        int (length (IDS_OF_PACKAGES g)) + int (length (IDS_OF_SUBJECTS g))] \<and>
     map fst (TOPICS_IDS g) =
       [1..int (length (IDS_OF_PACKAGES g)) + int (length (IDS_OF_SUBJECTS g))] \<and>
     map snd (TOPICS_IDS g) =
       map fst (IDS_OF_PACKAGES g) @ map Some (map fst (IDS_OF_SUBJECTS g)) \<and>
     length (PACKAGES_RELS g) = length (IDS_OF_PACKAGES g) \<and>
     length (SUBJECTS_RELS g) = length (IDS_OF_SUBJECTS g) \<and>
     (\<exists>g2. setup_globals g sheet = Inr g2 \<and> IDS_OF_PACKAGES g2 = IDS_OF_PACKAGES g \<and>
        IDS_OF_SUBJECTS g2 = IDS_OF_SUBJECTS g \<and> TOPICS_IDS g2 = TOPICS_IDS g)"
proof -
  from setup_globals_parts [OF s] obtain books h pb sb where
    r: "get_raw_list_of_books sheet = Inr books" and
    i: "index_books (init_globals, [], []) books = Inr (h, pb, sb)" and
    a: "assign_ids (h, pb, sb) = Inr g"
    by blast
  let ?pk = "map book_package books"
  let ?sj = "concat (map book_subjects books)"
  note k = index_books_keys [OF i]
  have kh: "map fst (PACKAGES_RELS h) = add_keys [] ?pk"
    "map fst (SUBJECTS_RELS h) = add_keys [] ?sj"
    "IDS_OF_PACKAGES h = []" "IDS_OF_SUBJECTS h = []" "TOPICS_IDS h = []"
    using k by (simp_all add: init_globals_def)
  have dh: "distinct (map fst (PACKAGES_RELS h))" "distinct (map fst (SUBJECTS_RELS h))"
    using kh by simp_all
  note f = assign_ids_fresh [OF a kh(3,4,5) dh]
  let ?ps = "sort (map fst (PACKAGES_RELS h))"
  let ?ss = "sort (map fst (SUBJECTS_RELS h))"
  have lp: "length (PACKAGES_RELS h) = length ?ps" and ls: "length (SUBJECTS_RELS h) = length ?ss"
    by simp_all
  have p1: "map fst (IDS_OF_PACKAGES g) = ?ps"
    and s1: "map fst (IDS_OF_SUBJECTS g) = ?ss"
    and p2: "map snd (IDS_OF_PACKAGES g) = [1..int (length ?ps)]"
    and s2: "map snd (IDS_OF_SUBJECTS g) =
        [int (length ?ps) + 1..int (length ?ps) + int (length ?ss)]"
    using f(1,2) by (simp_all add: comp_def map_fst_enumerate add.commute)
  have t1: "map fst (TOPICS_IDS g) = [1..int (length ?ps) + int (length ?ss)]"
  proof -
    have "[1..int (length ?ps) + int (length ?ss)] =
        [1..int (length ?ps)] @ [int (length ?ps) + 1..int (length ?ps) + int (length ?ss)]"
      by (rule upto_append_from_one) simp_all
    then show ?thesis
      using f(3) by (simp add: comp_def map_fst_enumerate add.commute)
  qed
  have t2: "map snd (TOPICS_IDS g) = ?ps @ map Some ?ss"
    using f(3) by (simp add: comp_def flip: map_map [unfolded comp_def])
  have lens: "length (IDS_OF_PACKAGES g) = length ?ps" "length (IDS_OF_SUBJECTS g) = length ?ss"
    using p1 s1 by (metis length_map)+
  have lr: "length (PACKAGES_RELS g) = length (IDS_OF_PACKAGES g)"
    "length (SUBJECTS_RELS g) = length (IDS_OF_SUBJECTS g)"
    using f(4,5) lens by simp_all
  have srt: "sorted ?ps" "distinct ?ps" "set ?ps = set (map book_package books)"
    "sorted ?ss" "distinct ?ss" "set ?ss = set (concat (map book_subjects books))"
    using kh by simp_all
  show ?thesis
  proof (intro exI [of _ books] conjI)
    show "get_raw_list_of_books sheet = Inr books" by (rule r)
    show "sorted (map fst (IDS_OF_PACKAGES g))" "distinct (map fst (IDS_OF_PACKAGES g))"
      "set (map fst (IDS_OF_PACKAGES g)) = set (map book_package books)"
      unfolding p1 using srt by simp_all
    show "sorted (map fst (IDS_OF_SUBJECTS g))" "distinct (map fst (IDS_OF_SUBJECTS g))"
      "set (map fst (IDS_OF_SUBJECTS g)) = set (concat (map book_subjects books))"
      unfolding s1 using srt by simp_all
    show "map snd (IDS_OF_PACKAGES g) = [1..int (length (IDS_OF_PACKAGES g))]"
      unfolding lens by (rule p2)
    show "map snd (IDS_OF_SUBJECTS g) =
       [int (length (IDS_OF_PACKAGES g)) + 1..
        int (length (IDS_OF_PACKAGES g)) + int (length (IDS_OF_SUBJECTS g))]"
      unfolding lens by (rule s2)
    show "map fst (TOPICS_IDS g) =
       [1..int (length (IDS_OF_PACKAGES g)) + int (length (IDS_OF_SUBJECTS g))]"
      unfolding lens by (rule t1)
    show "map snd (TOPICS_IDS g) =
       map fst (IDS_OF_PACKAGES g) @ map Some (map fst (IDS_OF_SUBJECTS g))"
      unfolding p1 s1 by (rule t2)
    show "length (PACKAGES_RELS g) = length (IDS_OF_PACKAGES g)"
      "length (SUBJECTS_RELS g) = length (IDS_OF_SUBJECTS g)"
      by (rule lr)+
    show "\<exists>g2. setup_globals g sheet = Inr g2 \<and> IDS_OF_PACKAGES g2 = IDS_OF_PACKAGES g \<and>
        IDS_OF_SUBJECTS g2 = IDS_OF_SUBJECTS g \<and> TOPICS_IDS g2 = TOPICS_IDS g"
      by (rule setup_globals_again [OF s])
  qed
qed

subsection \<open>Contents of the tables\<close>

lemma dd_list_dd_append:
  "dd_list (dd_append d k v) k' = (if k' = k then dd_list d k @ [v] else dd_list d k')"
  by (simp add: dd_list_def dd_append_def update_conv')

lemma dd_set_dd_add:
  "dd_set (dd_add d k v) k' = (if k' = k then insert v (dd_set d k) else dd_set d k')"
  by (simp add: dd_set_def dd_add_def update_conv')

lemma add_subject_content:
  "add_subject p d (g, sb) s = (g1, sb1) \<Longrightarrow>
     dd_list sb1 n = dd_list sb n @ (if n = s then [d] else []) \<and>
     dd_set (SUBJECTS_RELS g1) n = dd_set (SUBJECTS_RELS g) n \<union> (if n = s then {p} else {}) \<and>
     dd_set (PACKAGES_RELS g1) q = dd_set (PACKAGES_RELS g) q \<union> (if q = p then {s} else {})"
  by (auto simp: add_subject_def dd_list_dd_append dd_set_dd_add)

lemma add_subjects_content:
  "foldl (add_subject p d) (g, sb) ss = (g', sb') \<Longrightarrow>
     dd_list sb' n = dd_list sb n @ replicate (count_list ss n) d \<and>
     dd_set (SUBJECTS_RELS g') n = dd_set (SUBJECTS_RELS g) n \<union> (if n \<in> set ss then {p} else {}) \<and>
     dd_set (PACKAGES_RELS g') q = dd_set (PACKAGES_RELS g) q \<union> (if q = p then set ss else {})"
proof (induction ss arbitrary: g sb)
  case Nil
  then show ?case by simp
next
  case (Cons s ss)
  obtain g1 sb1 where 1: "add_subject p d (g, sb) s = (g1, sb1)"
    by (meson surj_pair)
  with Cons.prems have 2: "foldl (add_subject p d) (g1, sb1) ss = (g', sb')"
    by simp
  note ih = Cons.IH [OF 2] and st = add_subject_content [OF 1, of n q]
  have "dd_list sb' n = dd_list sb n @ replicate (count_list (s # ss) n) d"
    using ih st by (simp add: replicate_app_Cons_same)
  moreover have "dd_set (SUBJECTS_RELS g') n =
      dd_set (SUBJECTS_RELS g) n \<union> (if n \<in> set (s # ss) then {p} else {})"
    using ih st by auto
  moreover have "dd_set (PACKAGES_RELS g') q =
      dd_set (PACKAGES_RELS g) q \<union> (if q = p then set (s # ss) else {})"
    using ih st by auto
  ultimately show ?case by (intro conjI)
qed

lemma index_book_content:
  assumes "index_book (g, pb, sb) b = Inr (g', pb', sb')"
  shows "dd_list sb' n = dd_list sb n @ replicate (count_list (book_subjects b) n) (book_doi b)"
    and "dd_list pb' q = dd_list pb q @ (if q = book_package b then [book_doi b] else [])"
    and "dd_set (SUBJECTS_RELS g') n =
           dd_set (SUBJECTS_RELS g) n \<union>
           (if n \<in> set (book_subjects b) then {book_package b} else {})"
    and "dd_set (PACKAGES_RELS g') q =
           dd_set (PACKAGES_RELS g) q \<union>
           (if q = book_package b then set (book_subjects b) else {})"
proof -
  obtain t p s d where b: "b = (t, p, s, d)" by (cases b) auto
  with assms obtain f where s: "s = Some f"
    by (auto simp: index_book_def split: option.splits)
  obtain g2 sb2 where f: "foldl (add_subject p d)
      (g\<lparr>BOOKS_PACKAGES := AList.update d p (BOOKS_PACKAGES g)\<rparr>, sb) (subject_names f) = (g2, sb2)"
    by (meson surj_pair)
  from assms b s f have g': "g' = g2\<lparr>BOOKS_TITLES := AList.update d t (BOOKS_TITLES g2)\<rparr>"
    and pb': "pb' = dd_append pb p d" and sb': "sb' = sb2"
    by (auto simp: index_book_def)
  note c = add_subjects_content [OF f, of n q]
  have bs: "book_subjects b = subject_names f" "book_doi b = d" "book_package b = p"
    using b s by (simp_all add: book_subjects_def book_doi_def book_package_def)
  show "dd_list sb' n = dd_list sb n @ replicate (count_list (book_subjects b) n) (book_doi b)"
    using c sb' bs by simp
  show "dd_list pb' q = dd_list pb q @ (if q = book_package b then [book_doi b] else [])"
    using pb' bs by (simp add: dd_list_dd_append)
  show "dd_set (SUBJECTS_RELS g') n =
      dd_set (SUBJECTS_RELS g) n \<union> (if n \<in> set (book_subjects b) then {book_package b} else {})"
    using c g' bs by simp
  show "dd_set (PACKAGES_RELS g') q =
      dd_set (PACKAGES_RELS g) q \<union> (if q = book_package b then set (book_subjects b) else {})"
    using c g' bs by simp
qed

lemma index_books_content:
  "index_books (g, pb, sb) bs = Inr (g', pb', sb') \<Longrightarrow>
     dd_list sb' n = dd_list sb n @ subject_books n bs \<and>
     dd_list pb' q = dd_list pb q @ package_books q bs \<and>
     dd_set (SUBJECTS_RELS g') n =
       dd_set (SUBJECTS_RELS g) n \<union> book_package ` {b \<in> set bs. n \<in> set (book_subjects b)} \<and>
     dd_set (PACKAGES_RELS g') q =
       dd_set (PACKAGES_RELS g) q \<union>
       (\<Union>b \<in> {b \<in> set bs. book_package b = q}. set (book_subjects b))"
proof (induction bs arbitrary: g pb sb)
  case Nil
  then show ?case by (simp add: subject_books_def package_books_def)
next
  case (Cons b bs)
  from Cons.prems obtain g1 pb1 sb1 where
    1: "index_book (g, pb, sb) b = Inr (g1, pb1, sb1)" and
    2: "index_books (g1, pb1, sb1) bs = Inr (g', pb', sb')"
    by (auto split: sum.splits)
  note ih = Cons.IH [OF 2] and st = index_book_content [OF 1]
  have "dd_list sb' n = dd_list sb n @ subject_books n (b # bs)"
    using ih st by (simp add: subject_books_def)
  moreover have "dd_list pb' q = dd_list pb q @ package_books q (b # bs)"
    using ih st by (simp add: package_books_def)
  moreover have "dd_set (SUBJECTS_RELS g') n =
      dd_set (SUBJECTS_RELS g) n \<union> book_package ` {c \<in> set (b # bs). n \<in> set (book_subjects c)}"
    using ih st by auto
  moreover have "dd_set (PACKAGES_RELS g') q =
      dd_set (PACKAGES_RELS g) q \<union>
      (\<Union>c \<in> {c \<in> set (b # bs). book_package c = q}. set (book_subjects c))"
    using ih st by auto
  ultimately show ?case by (intro conjI)
qed

text \<open>What the last two loops store.\<close>

lemma map_of_same_value:
  "distinct (map snd al) \<Longrightarrow> map_of al k = Some v \<Longrightarrow> map_of al k' = Some v \<Longrightarrow> k = k'"
proof -
  assume d: "distinct (map snd al)" and 1: "map_of al k = Some v" and 2: "map_of al k' = Some v"
  have "(k, v) \<in> set al" "(k', v) \<in> set al"
    using 1 2 by (auto dest: map_of_SomeD)
  moreover have "inj_on snd (set al)"
    using d by (simp add: distinct_map)
  ultimately have "(k, v) = (k', v)"
    by (intro inj_onD [of snd "set al"]) simp_all
  then show ?thesis by simp
qed

lemma key_packages_other:
  "key_packages g pb = Inr g' \<Longrightarrow>
   \<forall>p \<in> fst ` set pb. map_of (IDS_OF_PACKAGES g) p \<noteq> Some i \<Longrightarrow>
   map_of (TOPICS_BOOKS g') i = map_of (TOPICS_BOOKS g) i"
proof (induction g pb rule: key_packages.induct)
  case (1 g)
  then show ?case by simp
next
  case (2 g topic books rest)
  from "2.prems"(1) obtain i0 where
    i0: "map_of (IDS_OF_PACKAGES g) topic = Some i0" and
    r: "key_packages (g\<lparr>TOPICS_BOOKS := AList.update i0 books (TOPICS_BOOKS g)\<rparr>) rest = Inr g'"
    by (auto simp: dict_get_def split: option.splits sum.splits)
  have ne: "i0 \<noteq> i"
    using "2.prems"(2) i0 by auto
  have "map_of (TOPICS_BOOKS g') i =
      map_of (TOPICS_BOOKS (g\<lparr>TOPICS_BOOKS := AList.update i0 books (TOPICS_BOOKS g)\<rparr>)) i"
    using "2.IH" [of i0] i0 r "2.prems"(2) by (simp add: dict_get_def)
  then show ?case
    using ne by (simp add: update_conv')
qed

lemma key_packages_entry:
  "key_packages g pb = Inr g' \<Longrightarrow> distinct (map fst pb) \<Longrightarrow>
   distinct (map snd (IDS_OF_PACKAGES g)) \<Longrightarrow> (p, bs) \<in> set pb \<Longrightarrow>
   map_of (IDS_OF_PACKAGES g) p = Some i \<Longrightarrow> map_of (TOPICS_BOOKS g') i = Some bs"
proof (induction g pb rule: key_packages.induct)
  case (1 g)
  then show ?case by simp
next
  case (2 g topic books rest)
  from "2.prems"(1) obtain i0 where
    i0: "map_of (IDS_OF_PACKAGES g) topic = Some i0" and
    r: "key_packages (g\<lparr>TOPICS_BOOKS := AList.update i0 books (TOPICS_BOOKS g)\<rparr>) rest = Inr g'"
    by (auto simp: dict_get_def split: option.splits sum.splits)
  let ?g1 = "g\<lparr>TOPICS_BOOKS := AList.update i0 books (TOPICS_BOOKS g)\<rparr>"
  show ?case
  proof (cases "(p, bs) \<in> set rest")
    case True
    then show ?thesis
      using "2.IH" [of i0] i0 r "2.prems" by (simp add: dict_get_def)
  next
    case False
    then have e: "p = topic" "bs = books"
      using "2.prems"(4) by auto
    then have ii: "i = i0"
      using i0 "2.prems"(5) by simp
    have "\<forall>q \<in> fst ` set rest. map_of (IDS_OF_PACKAGES ?g1) q \<noteq> Some i0"
    proof
      fix q assume q: "q \<in> fst ` set rest"
      show "map_of (IDS_OF_PACKAGES ?g1) q \<noteq> Some i0"
      proof
        assume "map_of (IDS_OF_PACKAGES ?g1) q = Some i0"
        then have "q = topic"
          using map_of_same_value [OF "2.prems"(3), of q i0 topic] i0 by simp
        then show False
          using q "2.prems"(2) by auto
      qed
    qed
    from key_packages_other [OF r this]
    show ?thesis
      using e ii by (simp add: update_conv')
  qed
qed

lemma key_subjects_other:
  "key_subjects g sb = Inr g' \<Longrightarrow>
   \<forall>p \<in> fst ` set sb. map_of (IDS_OF_SUBJECTS g) p \<noteq> Some i \<Longrightarrow>
   map_of (TOPICS_BOOKS g') i = map_of (TOPICS_BOOKS g) i"
proof (induction g sb rule: key_subjects.induct)
  case (1 g)
  then show ?case by simp
next
  case (2 g topic books rest)
  from "2.prems"(1) obtain i0 where
    i0: "map_of (IDS_OF_SUBJECTS g) topic = Some i0" and
    r: "key_subjects (g\<lparr>TOPICS_BOOKS := AList.update i0 books (TOPICS_BOOKS g)\<rparr>) rest = Inr g'"
    by (auto simp: dict_get_def split: option.splits sum.splits)
  have ne: "i0 \<noteq> i"
    using "2.prems"(2) i0 by auto
  have "map_of (TOPICS_BOOKS g') i =
      map_of (TOPICS_BOOKS (g\<lparr>TOPICS_BOOKS := AList.update i0 books (TOPICS_BOOKS g)\<rparr>)) i"
    using "2.IH" [of i0] i0 r "2.prems"(2) by (simp add: dict_get_def)
  then show ?case
    using ne by (simp add: update_conv')
qed

lemma key_subjects_entry:
  "key_subjects g sb = Inr g' \<Longrightarrow> distinct (map fst sb) \<Longrightarrow>
   distinct (map snd (IDS_OF_SUBJECTS g)) \<Longrightarrow> (p, bs) \<in> set sb \<Longrightarrow>
   map_of (IDS_OF_SUBJECTS g) p = Some i \<Longrightarrow> map_of (TOPICS_BOOKS g') i = Some bs"
proof (induction g sb rule: key_subjects.induct)
  case (1 g)
  then show ?case by simp
next
  case (2 g topic books rest)
  from "2.prems"(1) obtain i0 where
    i0: "map_of (IDS_OF_SUBJECTS g) topic = Some i0" and
    r: "key_subjects (g\<lparr>TOPICS_BOOKS := AList.update i0 books (TOPICS_BOOKS g)\<rparr>) rest = Inr g'"
    by (auto simp: dict_get_def split: option.splits sum.splits)
  let ?g1 = "g\<lparr>TOPICS_BOOKS := AList.update i0 books (TOPICS_BOOKS g)\<rparr>"
  show ?case
  proof (cases "(p, bs) \<in> set rest")
    case True
    then show ?thesis
      using "2.IH" [of i0] i0 r "2.prems" by (simp add: dict_get_def)
  next
    case False
    then have e: "p = topic" "bs = books"
      using "2.prems"(4) by auto
    then have ii: "i = i0"
      using i0 "2.prems"(5) by simp
    have "\<forall>q \<in> fst ` set rest. map_of (IDS_OF_SUBJECTS ?g1) q \<noteq> Some i0"
    proof
      fix q assume q: "q \<in> fst ` set rest"
      show "map_of (IDS_OF_SUBJECTS ?g1) q \<noteq> Some i0"
      proof
        assume "map_of (IDS_OF_SUBJECTS ?g1) q = Some i0"
        then have "q = topic"
          using map_of_same_value [OF "2.prems"(3), of q i0 topic] i0 by simp
        then show False
          using q "2.prems"(2) by auto
      qed
    qed
    from key_subjects_other [OF r this]
    show ?thesis
      using e ii by (simp add: update_conv')
  qed
qed

lemma map_of_swap_D:
  "map_of (map (\<lambda>p. (snd p, fst p)) xs) t = Some i \<Longrightarrow> (i, t) \<in> set xs"
  by (auto dest!: map_of_SomeD)

lemma dd_list_Nil [simp]: "dd_list [] k = []"
  by (simp add: dd_list_def)

lemma dd_set_Nil [simp]: "dd_set [] k = {}"
  by (simp add: dd_set_def)

lemma dd_list_entry:
  "distinct (map fst d) \<Longrightarrow> (k, v) \<in> set d \<Longrightarrow> dd_list d k = v"
  by (simp add: dd_list_def)

lemma setup_globals_content:
  assumes s: "setup_globals init_globals sheet = Inr g"
    and r: "get_raw_list_of_books sheet = Inr books"
  shows "p \<in> set (map book_package books) \<Longrightarrow>
      \<exists>i. map_of (IDS_OF_PACKAGES g) p = Some i \<and> 0 < i \<and> i \<le> int (length (PACKAGES_RELS g)) \<and>
        map_of (TOPICS_IDS g) i = Some p \<and>
        map_of (TOPICS_BOOKS g) i = Some (package_books p books)"
    and "n \<in> set (concat (map book_subjects books)) \<Longrightarrow>
      \<exists>j. map_of (IDS_OF_SUBJECTS g) n = Some j \<and> int (length (PACKAGES_RELS g)) < j \<and>
        j \<le> int (length (PACKAGES_RELS g)) + int (length (SUBJECTS_RELS g)) \<and>
        map_of (TOPICS_IDS g) j = Some (Some n) \<and>
        map_of (TOPICS_BOOKS g) j = Some (subject_books n books)"
    and "dd_set (SUBJECTS_RELS g) n = book_package ` {b \<in> set books. n \<in> set (book_subjects b)}"
    and "dd_set (PACKAGES_RELS g) q =
           (\<Union>b \<in> {b \<in> set books. book_package b = q}. set (book_subjects b))"
    and "i \<le> 0 \<or> int (length (PACKAGES_RELS g)) + int (length (SUBJECTS_RELS g)) < i \<Longrightarrow>
           map_of (TOPICS_BOOKS g) i = None"
proof -
  from setup_globals_parts [OF s] r obtain h pb sb where
    i: "index_books (init_globals, [], []) books = Inr (h, pb, sb)" and
    a: "assign_ids (h, pb, sb) = Inr g"
    by auto
  let ?pk = "map book_package books"
  let ?sj = "concat (map book_subjects books)"
  note k = index_books_keys [OF i]
  have kh: "map fst (PACKAGES_RELS h) = add_keys [] ?pk"
    "map fst (SUBJECTS_RELS h) = add_keys [] ?sj"
    "IDS_OF_PACKAGES h = []" "IDS_OF_SUBJECTS h = []" "TOPICS_IDS h = []"
    and kb: "map fst pb = add_keys [] ?pk" "map fst sb = add_keys [] ?sj" "TOPICS_BOOKS h = []"
    using k by (simp_all add: init_globals_def)
  have dh: "distinct (map fst (PACKAGES_RELS h))" "distinct (map fst (SUBJECTS_RELS h))"
    and db: "distinct (map fst pb)" "distinct (map fst sb)"
    using kh kb by simp_all
  note f = assign_ids_fresh [OF a kh(3,4,5) dh]
  note c = index_books_content [OF i]
  let ?P = "int (length (PACKAGES_RELS h))"
  let ?S = "int (length (SUBJECTS_RELS h))"
  let ?E = "enumerate 1 (sort (map fst (PACKAGES_RELS h)))"
  let ?F = "enumerate (1 + ?P) (sort (map fst (SUBJECTS_RELS h)))"
  let ?g2 = "foldl number_subject (foldl number_package h ?E) ?F"
  from assign_ids_result [OF a] obtain g3 where
    kp: "key_packages ?g2 pb = Inr g3" and ks: "key_subjects g3 sb = Inr g"
    by auto
  note kf = key_packages_fields [OF kp] and sf = key_subjects_fields [OF ks]
  have ip2: "IDS_OF_PACKAGES ?g2 = map (\<lambda>p. (snd p, fst p)) ?E"
    and is3: "IDS_OF_SUBJECTS g3 = map (\<lambda>p. (snd p, fst p)) ?F"
    using f(1,2) kf sf by simp_all
  have tb2: "TOPICS_BOOKS ?g2 = []"
    using kb(3) number_subject_fields [of "foldl number_package h ?E" ?F]
      number_package_fields [of h ?E] by simp
  have dti: "distinct (map fst (TOPICS_IDS g))"
    unfolding f(3) by (auto simp: map_fst_enumerate comp_def simp flip: set_map)
  have lens: "length (PACKAGES_RELS g) = length (PACKAGES_RELS h)"
    "length (SUBJECTS_RELS g) = length (SUBJECTS_RELS h)"
    using f(4,5) by simp_all
  \<comment> \<open>a subject key never has a package's number, and the other way round\<close>
  have sub_ids: "map_of (IDS_OF_SUBJECTS g3) m = Some j \<Longrightarrow> ?P < j \<and> j \<le> ?P + ?S" for m j
    using in_set_enumerate [of j m "1 + ?P" "sort (map fst (SUBJECTS_RELS h))"]
    unfolding is3 by (auto dest!: map_of_swap_D)
  have pkg_ids: "map_of (IDS_OF_PACKAGES ?g2) m = Some j \<Longrightarrow> 0 < j \<and> j \<le> ?P" for m j
    using in_set_enumerate [of j m 1 "sort (map fst (PACKAGES_RELS h))"]
    unfolding ip2 by (auto dest!: map_of_swap_D)
  show "\<exists>i. map_of (IDS_OF_PACKAGES g) p = Some i \<and> 0 < i \<and> i \<le> int (length (PACKAGES_RELS g)) \<and>
        map_of (TOPICS_IDS g) i = Some p \<and>
        map_of (TOPICS_BOOKS g) i = Some (package_books p books)"
    if p: "p \<in> set (map book_package books)"
  proof -
    have "p \<in> set (map snd ?E)"
      using p kh by simp
    then have "p \<in> snd ` set ?E"
      by (simp only: set_map)
    then obtain i where m: "(i, p) \<in> set ?E"
      by force
    have 1: "map_of (IDS_OF_PACKAGES ?g2) p = Some i"
      unfolding ip2 using m dh by (intro map_of_swap) simp_all
    have 2: "map_of (TOPICS_IDS g) i = Some p"
      using dti m by (intro map_of_is_SomeI) (simp_all add: f(3))
    have "p \<in> set (map fst pb)"
      using p kb by simp
    then have "p \<in> fst ` set pb"
      by (simp only: set_map)
    then obtain bs where e: "(p, bs) \<in> set pb"
      by force
    have bs: "bs = package_books p books"
      using dd_list_entry [OF db(1) e] c [of _ p] by simp
    have "distinct (map snd (IDS_OF_PACKAGES ?g2))"
      unfolding ip2 by (simp add: comp_def)
    from key_packages_entry [OF kp db(1) this e 1]
    have 3: "map_of (TOPICS_BOOKS g3) i = Some bs" .
    have "\<forall>m \<in> fst ` set sb. map_of (IDS_OF_SUBJECTS g3) m \<noteq> Some i"
      using sub_ids pkg_ids [OF 1] by fastforce
    from key_subjects_other [OF ks this] 3 bs
    have "map_of (TOPICS_BOOKS g) i = Some (package_books p books)"
      by simp
    then show ?thesis
      using 1 2 pkg_ids [OF 1] kf sf lens by auto
  qed
  show "\<exists>j. map_of (IDS_OF_SUBJECTS g) n = Some j \<and> int (length (PACKAGES_RELS g)) < j \<and>
        j \<le> int (length (PACKAGES_RELS g)) + int (length (SUBJECTS_RELS g)) \<and>
        map_of (TOPICS_IDS g) j = Some (Some n) \<and>
        map_of (TOPICS_BOOKS g) j = Some (subject_books n books)"
    if n: "n \<in> set (concat (map book_subjects books))"
  proof -
    have "n \<in> set (map snd ?F)"
      using n kh by simp
    then have "n \<in> snd ` set ?F"
      by (simp only: set_map)
    then obtain j where m: "(j, n) \<in> set ?F"
      by force
    have 1: "map_of (IDS_OF_SUBJECTS g3) n = Some j"
      unfolding is3 using m dh by (intro map_of_swap) simp_all
    have "(j, Some n) \<in> set (TOPICS_IDS g)"
      unfolding f(3) using m by (auto intro!: image_eqI [of _ _ "(j, n)"])
    then have 2: "map_of (TOPICS_IDS g) j = Some (Some n)"
      using dti by (intro map_of_is_SomeI)
    have "n \<in> set (map fst sb)"
      using n kb by simp
    then have "n \<in> fst ` set sb"
      by (simp only: set_map)
    then obtain bs where e: "(n, bs) \<in> set sb"
      by force
    have bs: "bs = subject_books n books"
      using dd_list_entry [OF db(2) e] c [of n] by simp
    have "distinct (map snd (IDS_OF_SUBJECTS g3))"
      unfolding is3 by (simp add: comp_def)
    from key_subjects_entry [OF ks db(2) this e 1] bs
    have 3: "map_of (TOPICS_BOOKS g) j = Some (subject_books n books)"
      by simp
    show ?thesis
      using 1 2 3 sub_ids [OF 1] sf lens by auto
  qed
  show "dd_set (SUBJECTS_RELS g) n = book_package ` {b \<in> set books. n \<in> set (book_subjects b)}"
    using c [of n] f(5) by (simp add: init_globals_def)
  show "dd_set (PACKAGES_RELS g) q =
      (\<Union>b \<in> {b \<in> set books. book_package b = q}. set (book_subjects b))"
    using c [of _ q] f(4) by (simp add: init_globals_def)
  show "map_of (TOPICS_BOOKS g) i = None"
    if o: "i \<le> 0 \<or> int (length (PACKAGES_RELS g)) + int (length (SUBJECTS_RELS g)) < i"
  proof -
    have "\<forall>m \<in> fst ` set sb. map_of (IDS_OF_SUBJECTS g3) m \<noteq> Some i"
      using sub_ids o lens by fastforce
    from key_subjects_other [OF ks this]
    have 1: "map_of (TOPICS_BOOKS g) i = map_of (TOPICS_BOOKS g3) i" .
    have "\<forall>m \<in> fst ` set pb. map_of (IDS_OF_PACKAGES ?g2) m \<noteq> Some i"
      using pkg_ids o lens by fastforce
    from key_packages_other [OF kp this] 1 tb2
    show ?thesis by simp
  qed
qed

subsection \<open>Claims about the index\<close>

lemma setup_long: "setup_globals init_globals long_sheet = Inr long_index"
  by code_simp

lemma raw_long: "get_raw_list_of_books long_sheet = Inr long_books"
  by code_simp

lemma setup_blank: "setup_globals init_globals blank_sheet = Inr blank_index"
  by code_simp

lemma raw_example: "get_raw_list_of_books example_sheet = Inr example_books"
  by code_simp



text \<open>
  Every identifier a record contributes is in the book list of its package and of each
  of its subject names.
\<close>

lemma subject_books_member:
  "b \<in> set bs \<Longrightarrow> n \<in> set (book_subjects b) \<Longrightarrow> book_doi b \<in> set (subject_books n bs)"
  by (auto simp: subject_books_def count_list_0_iff intro!: bexI [of _ b])

lemma package_books_member:
  "b \<in> set bs \<Longrightarrow> book_doi b \<in> set (package_books (book_package b) bs)"
  by (auto simp: package_books_def)

lemma length_subject_names:
  "n \<in> set (subject_names f) \<Longrightarrow> length n \<le> 50"
  by (auto simp: subject_names_def length_truncate_name)

lemma length_book_subjects:
  "n \<in> set (book_subjects b) \<Longrightarrow> length n \<le> 50"
  by (auto simp: book_subjects_def length_subject_names split: prod.splits option.splits)

lemma dd_list_map_of: "map_of d k = Some v \<Longrightarrow> dd_list d k = v"
  by (simp add: dd_list_def)

text \<open>
  C7. A subject name taken from a record is never longer than 50 characters once
  truncated; a raw name of more than 50 characters becomes its first 47 characters and
  three dots, 50 characters in all. The tables are keyed by the truncated names only:
  when two raw names, in whatever records and next to whatever other subjects, truncate
  to the same string, that string has one ID, its book list holds the books of both
  records, and both packages are related to it. No key of \<^verbatim>\<open>IDS_OF_SUBJECTS\<close> is longer
  than 50 characters.
\<close>

theorem subject_truncation:
  assumes s: "setup_globals init_globals sheet = Inr g"
    and r: "get_raw_list_of_books sheet = Inr books"
    and b1: "(t1, p1, Some f1, d1) \<in> set books"
    and b2: "(t2, p2, Some f2, d2) \<in> set books"
    and a: "a \<in> set (map py_strip (split_on CHR '';'' f1))"
    and b: "b \<in> set (map py_strip (split_on CHR '';'' f2))"
    and e: "truncate_name a = truncate_name b"
  shows "length (truncate_name a) \<le> 50 \<and>
     (50 < length a \<longrightarrow>
        truncate_name a = take 47 a @ ''...'' \<and> length (truncate_name a) = 50) \<and>
     (\<exists>i. map_of (IDS_OF_SUBJECTS g) (truncate_name a) = Some i \<and>
          map_of (IDS_OF_SUBJECTS g) (truncate_name b) = Some i \<and>
          int (length (PACKAGES_RELS g)) < i \<and>
          map_of (TOPICS_IDS g) i = Some (Some (truncate_name a)) \<and>
          dd_list (TOPICS_BOOKS g) i = subject_books (truncate_name a) books \<and>
          d1 \<in> set (dd_list (TOPICS_BOOKS g) i) \<and> d2 \<in> set (dd_list (TOPICS_BOOKS g) i) \<and>
          p1 \<in> dd_set (SUBJECTS_RELS g) (truncate_name a) \<and>
          p2 \<in> dd_set (SUBJECTS_RELS g) (truncate_name a) \<and>
          truncate_name a \<in> dd_set (PACKAGES_RELS g) p1 \<and>
          truncate_name a \<in> dd_set (PACKAGES_RELS g) p2) \<and>
     (\<forall>n \<in> fst ` set (IDS_OF_SUBJECTS g). length n \<le> 50)"
proof -
  let ?n = "truncate_name a"
  let ?b1 = "(t1, p1, Some f1, d1)" and ?b2 = "(t2, p2, Some f2, d2)"
  have n1: "?n \<in> set (book_subjects ?b1)"
    using a by (auto simp: book_subjects_def subject_names_def)
  have n2: "?n \<in> set (book_subjects ?b2)"
    using b e by (auto simp: book_subjects_def subject_names_def)
  have f: "book_doi ?b1 = d1" "book_doi ?b2 = d2" "book_package ?b1 = p1" "book_package ?b2 = p2"
    by (simp_all add: book_doi_def book_package_def)
  have "?n \<in> set (concat (map book_subjects books))"
    using b1 n1 by auto
  from setup_globals_content(2) [OF s r this] obtain i where
    i: "map_of (IDS_OF_SUBJECTS g) ?n = Some i" "int (length (PACKAGES_RELS g)) < i"
      "map_of (TOPICS_IDS g) i = Some (Some ?n)"
      "map_of (TOPICS_BOOKS g) i = Some (subject_books ?n books)"
    by blast
  have l: "dd_list (TOPICS_BOOKS g) i = subject_books ?n books"
    using i(4) by (rule dd_list_map_of)
  have m: "d1 \<in> set (subject_books ?n books)" "d2 \<in> set (subject_books ?n books)"
    using subject_books_member [OF b1 n1] subject_books_member [OF b2 n2] f by simp_all
  have in1: "?b1 \<in> {c \<in> set books. ?n \<in> set (book_subjects c)}"
    and in2: "?b2 \<in> {c \<in> set books. ?n \<in> set (book_subjects c)}"
    using b1 b2 n1 n2 by simp_all
  have rs: "p1 \<in> dd_set (SUBJECTS_RELS g) ?n" "p2 \<in> dd_set (SUBJECTS_RELS g) ?n"
    unfolding setup_globals_content(3) [OF s r]
    using imageI [OF in1, of book_package] imageI [OF in2, of book_package] f by simp_all
  have rp: "?n \<in> dd_set (PACKAGES_RELS g) p1" "?n \<in> dd_set (PACKAGES_RELS g) p2"
    unfolding setup_globals_content(4) [OF s r]
    using b1 b2 n1 n2 f by blast+
  from setup_globals_ids [OF s] r
  have keys: "set (map fst (IDS_OF_SUBJECTS g)) = set (concat (map book_subjects books))"
    by auto
  have k: "\<forall>n \<in> fst ` set (IDS_OF_SUBJECTS g). length n \<le> 50"
  proof
    fix n assume "n \<in> fst ` set (IDS_OF_SUBJECTS g)"
    then have "n \<in> set (concat (map book_subjects books))"
      using keys by simp
    then show "length n \<le> 50"
      by (auto simp: length_book_subjects)
  qed
  have t: "50 < length a \<longrightarrow> ?n = take 47 a @ ''...'' \<and> length ?n = 50"
    by (simp add: truncate_name_def LONGEST_def)
  show ?thesis
    using i(1,2,3) l m rs rp k t e length_truncate_name [of a] by auto
qed

theorem subject_truncation_witness:
  "setup_globals init_globals long_sheet = Inr long_index \<and>
   get_raw_list_of_books long_sheet = Inr long_books \<and>
   long_a \<noteq> long_b \<and> 50 < length long_a \<and>
   truncate_name long_a = truncate_name long_b \<and>
   truncate_name long_a = long_name \<and> length (truncate_name long_a) = 50 \<and>
   (\<exists>i. map_of (IDS_OF_SUBJECTS long_index) long_name = Some i \<and>
        map_of (TOPICS_IDS long_index) i = Some (Some long_name) \<and>
        dd_list (TOPICS_BOOKS long_index) i = [''10.1/aaa'', ''10.1/bbb''] \<and>
        Some ''Pkg1'' \<in> dd_set (SUBJECTS_RELS long_index) long_name \<and>
        Some ''Pkg2'' \<in> dd_set (SUBJECTS_RELS long_index) long_name \<and>
        long_name \<in> dd_set (PACKAGES_RELS long_index) (Some ''Pkg1'') \<and>
        long_name \<in> dd_set (PACKAGES_RELS long_index) (Some ''Pkg2''))"
proof -
  have s: "setup_globals init_globals long_sheet = Inr long_index"
    by code_simp
  have r: "get_raw_list_of_books long_sheet = Inr long_books"
    by code_simp
  have b1: "(Some ''Book A'', Some ''Pkg1'', Some (long_a @ ''; Algebra''), ''10.1/aaa'')
      \<in> set long_books"
    and b2: "(Some ''Book B'', Some ''Pkg2'', Some (''Logic;'' @ long_b), ''10.1/bbb'')
      \<in> set long_books"
    by (simp_all add: long_books_def)
  have a: "long_a \<in> set (map py_strip (split_on CHR '';'' (long_a @ ''; Algebra'')))"
    and b: "long_b \<in> set (map py_strip (split_on CHR '';'' (''Logic;'' @ long_b)))"
    by code_simp+
  have e: "truncate_name long_a = truncate_name long_b"
    by code_simp
  have v: "long_a \<noteq> long_b" "50 < length long_a" "truncate_name long_a = long_name"
    "subject_books long_name long_books = [''10.1/aaa'', ''10.1/bbb'']"
    by code_simp+
  from subject_truncation [OF s r b1 b2 a b e] s r e v
  show ?thesis by auto
qed

text \<open>
  C4, as stated, fails: a record whose subjects field is the empty string is indexed
  under a subject whose name is the empty string, with an ID, a book list and a relation
  to the package.
\<close>

theorem empty_subjects_counterexample:
  "setup_globals init_globals
     [header_row, (Some ''Book A'', Some ''Pkg1'', Some [], Some ''10.1/aaa'')] = Inr blank_index \<and>
   IDS_OF_SUBJECTS blank_index = [([], 2)] \<and>
   TOPICS_IDS blank_index = [(1, Some ''Pkg1''), (2, Some [])] \<and>
   dd_list (TOPICS_BOOKS blank_index) 2 = [''10.1/aaa''] \<and>
   dd_set (SUBJECTS_RELS blank_index) [] = {Some ''Pkg1''} \<and>
   dd_set (PACKAGES_RELS blank_index) (Some ''Pkg1'') = {[]} \<and>
   length (SUBJECTS_RELS blank_index) = 1"
  by code_simp

lemma subject_names_empty: "subject_names [] = [[]]"
  by code_simp

lemma setup_globals_no_subjects:
  assumes r: "get_raw_list_of_books sheet = Inr books"
    and b: "(title, package, None, doi) \<in> set books"
  shows "setup_globals g0 sheet = Inl AttributeError"
proof -
  have "\<exists>b \<in> set books. fst (snd (snd b)) = None"
    using b by force
  then have "index_books (g0, [], []) books = Inl AttributeError"
    using index_books_cases [of "(g0, [], [])" books AttributeError] by simp
  then show ?thesis
    using r by (simp add: setup_globals_def)
qed

text \<open>
  C4, amended. For every record whose subjects field is the empty string, indexing
  records the book under its package and also under the subject named by the empty
  string: that name gets a subject ID above \<open>P\<close>, the book is in its book list, and
  the package and the empty name are related to each other. A record whose subjects
  cell is empty altogether (\<open>None\<close>) makes the indexing pass fail with
  \<^verbatim>\<open>AttributeError\<close>.
\<close>

theorem empty_subjects_field_is_a_subject:
  "(setup_globals init_globals sheet = Inr g \<and> get_raw_list_of_books sheet = Inr books \<and>
    (title, package, Some [], doi) \<in> set books \<longrightarrow>
      (\<exists>i. map_of (IDS_OF_PACKAGES g) package = Some i \<and> i \<le> int (length (PACKAGES_RELS g)) \<and>
           doi \<in> set (dd_list (TOPICS_BOOKS g) i)) \<and>
      (\<exists>j. map_of (IDS_OF_SUBJECTS g) [] = Some j \<and> int (length (PACKAGES_RELS g)) < j \<and>
           map_of (TOPICS_IDS g) j = Some (Some []) \<and>
           doi \<in> set (dd_list (TOPICS_BOOKS g) j)) \<and>
      package \<in> dd_set (SUBJECTS_RELS g) [] \<and> [] \<in> dd_set (PACKAGES_RELS g) package) \<and>
   (get_raw_list_of_books sheet = Inr books \<and> (title, package, None, doi) \<in> set books \<longrightarrow>
      setup_globals g0 sheet = Inl AttributeError)"
proof (intro conjI impI)
  assume h: "get_raw_list_of_books sheet = Inr books \<and> (title, package, None, doi) \<in> set books"
  then show "setup_globals g0 sheet = Inl AttributeError"
    using setup_globals_no_subjects by blast
next
  assume h: "setup_globals init_globals sheet = Inr g \<and> get_raw_list_of_books sheet = Inr books \<and>
    (title, package, Some [], doi) \<in> set books"
  then have s: "setup_globals init_globals sheet = Inr g"
    and r: "get_raw_list_of_books sheet = Inr books"
    and b: "(title, package, Some [], doi) \<in> set books"
    by simp_all
  let ?b = "(title, package, Some [], doi)"
  have f: "book_doi ?b = doi" "book_package ?b = package" "book_subjects ?b = [[]]"
    by (simp_all add: book_doi_def book_package_def book_subjects_def subject_names_empty)
  have n: "[] \<in> set (concat (map book_subjects books))"
    using b f by (auto intro!: bexI [of _ ?b])
  have p: "package \<in> set (map book_package books)"
    using b f by (auto intro!: image_eqI [of _ _ ?b])
  from setup_globals_content(1) [OF s r p] obtain i where
    i: "map_of (IDS_OF_PACKAGES g) package = Some i" "i \<le> int (length (PACKAGES_RELS g))"
      "map_of (TOPICS_BOOKS g) i = Some (package_books package books)"
    by blast
  from setup_globals_content(2) [OF s r n] obtain j where
    j: "map_of (IDS_OF_SUBJECTS g) [] = Some j" "int (length (PACKAGES_RELS g)) < j"
      "map_of (TOPICS_IDS g) j = Some (Some [])"
      "map_of (TOPICS_BOOKS g) j = Some (subject_books [] books)"
    by blast
  have "doi \<in> set (package_books package books)"
    using package_books_member [OF b] f by simp
  then have "doi \<in> set (dd_list (TOPICS_BOOKS g) i)"
    using dd_list_map_of [OF i(3)] by simp
  then show "\<exists>i. map_of (IDS_OF_PACKAGES g) package = Some i \<and>
      i \<le> int (length (PACKAGES_RELS g)) \<and> doi \<in> set (dd_list (TOPICS_BOOKS g) i)"
    using i by blast
  have "doi \<in> set (subject_books [] books)"
    using subject_books_member [OF b, of "[]"] f by simp
  then have "doi \<in> set (dd_list (TOPICS_BOOKS g) j)"
    using dd_list_map_of [OF j(4)] by simp
  then show "\<exists>j. map_of (IDS_OF_SUBJECTS g) [] = Some j \<and> int (length (PACKAGES_RELS g)) < j \<and>
      map_of (TOPICS_IDS g) j = Some (Some []) \<and> doi \<in> set (dd_list (TOPICS_BOOKS g) j)"
    using j by blast
  have "?b \<in> {c \<in> set books. [] \<in> set (book_subjects c)}"
    using b f by simp
  from imageI [OF this, of book_package]
  show "package \<in> dd_set (SUBJECTS_RELS g) []"
    unfolding setup_globals_content(3) [OF s r] using f by simp
  have "[] \<in> set (book_subjects ?b)"
    using f by simp
  then show "[] \<in> dd_set (PACKAGES_RELS g) package"
    unfolding setup_globals_content(4) [OF s r]
    using b f(2) by blast
qed

theorem empty_subjects_field_is_a_subject_witness:
  "setup_globals init_globals blank_sheet = Inr blank_index \<and>
   get_raw_list_of_books blank_sheet =
     Inr [(Some ''Book A'', Some ''Pkg1'', Some [], ''10.1/aaa'')] \<and>
   (\<exists>i. map_of (IDS_OF_PACKAGES blank_index) (Some ''Pkg1'') = Some i \<and>
        i \<le> int (length (PACKAGES_RELS blank_index)) \<and>
        ''10.1/aaa'' \<in> set (dd_list (TOPICS_BOOKS blank_index) i)) \<and>
   (\<exists>j. map_of (IDS_OF_SUBJECTS blank_index) [] = Some j \<and>
        int (length (PACKAGES_RELS blank_index)) < j \<and>
        map_of (TOPICS_IDS blank_index) j = Some (Some []) \<and>
        ''10.1/aaa'' \<in> set (dd_list (TOPICS_BOOKS blank_index) j)) \<and>
   Some ''Pkg1'' \<in> dd_set (SUBJECTS_RELS blank_index) [] \<and>
   [] \<in> dd_set (PACKAGES_RELS blank_index) (Some ''Pkg1'') \<and>
   get_raw_list_of_books
     [header_row, (Some ''Book A'', Some ''Pkg1'', None, Some ''10.1/aaa'')] =
     Inr [(Some ''Book A'', Some ''Pkg1'', None, ''10.1/aaa'')] \<and>
   setup_globals init_globals
     [header_row, (Some ''Book A'', Some ''Pkg1'', None, Some ''10.1/aaa'')] =
     Inl AttributeError"
proof -
  have s: "setup_globals init_globals blank_sheet = Inr blank_index"
    by code_simp
  have r: "get_raw_list_of_books blank_sheet =
      Inr [(Some ''Book A'', Some ''Pkg1'', Some [], ''10.1/aaa'')]"
    by code_simp
  have b: "(Some ''Book A'', Some ''Pkg1'', Some [], ''10.1/aaa'')
      \<in> set [(Some ''Book A'', Some ''Pkg1'', Some [], ''10.1/aaa'')]"
    by simp
  have r2: "get_raw_list_of_books
      [header_row, (Some ''Book A'', Some ''Pkg1'', None, Some ''10.1/aaa'')] =
      Inr [(Some ''Book A'', Some ''Pkg1'', None, ''10.1/aaa'')]"
    by code_simp
  have b2: "(Some ''Book A'', Some ''Pkg1'', None, ''10.1/aaa'')
      \<in> set [(Some ''Book A'', Some ''Pkg1'', None, ''10.1/aaa'')]"
    by simp
  from empty_subjects_field_is_a_subject
    [of blank_sheet blank_index "[(Some ''Book A'', Some ''Pkg1'', Some [], ''10.1/aaa'')]"
      "Some ''Book A''" "Some ''Pkg1''" "''10.1/aaa''" init_globals]
    empty_subjects_field_is_a_subject
    [of "[header_row, (Some ''Book A'', Some ''Pkg1'', None, Some ''10.1/aaa'')]" blank_index
      "[(Some ''Book A'', Some ''Pkg1'', None, ''10.1/aaa'')]"
      "Some ''Book A''" "Some ''Pkg1''" "''10.1/aaa''" init_globals]
    s r b r2 b2
  show ?thesis by simp
qed

end
